theory Spec2Isabelle
  imports Main "HOL-Library.Sublist" "HOL-Library.Char_ord" "HOL-Library.List_Lexorder"
begin

text \<open>
  The language server of the spell checker: \<^verbatim>\<open>documentSettings.ts\<close> resolves the settings
  of a document from the editor, the configuration files of its workspace folder and the
  registered configuration files, behind caches that are reset together;
  \<^verbatim>\<open>server.ts\<close> keeps one pipeline per open document that debounces validation requests,
  holds them back while the document is being saved, and calls the analyzer.  The theory
  models both, the second as a machine whose steps are the events the server reacts to,
  and proves the properties listed as C1 to C10.
\<close>

section \<open>The libraries\<close>

text \<open>
  A thrown value, or the reason of a rejected promise: any JavaScript value.  The server
  does one thing with such a value, in the \<^verbatim>\<open>catch\<close> clause of \<^verbatim>\<open>validate\<close>: it hands it to
  \<^verbatim>\<open>JSON.stringify\<close>.  The model keeps of a thrown value what \<^verbatim>\<open>JSON.stringify\<close> makes of
  it.  \<open>Error text\<close> is a value that is rendered as \<open>text\<close>; \<open>Cyclic\<close> is a value that
  \<^verbatim>\<open>JSON.stringify\<close> does not render (an object that holds a reference to itself, a
  \<^verbatim>\<open>BigInt\<close>): for such a value it throws a \<^verbatim>\<open>TypeError\<close>, which is itself rendered as
  \<^verbatim>\<open>{}\<close>.
\<close>

datatype error = Error string | Cyclic

definition stringify :: "error \<Rightarrow> error + string" where
  "stringify e = (case e of Error text \<Rightarrow> Inr text | Cyclic \<Rightarrow> Inl (Error ''{}''))"

text \<open>
  The libraries rxjs and vscode-uri are not part of the sources, and the versions that the
  package file admits (\<^verbatim>\<open>rxjs ^6.5.2\<close>, \<^verbatim>\<open>vscode-uri ^2.0.3\<close>) do not all behave alike.  The
  model takes them as parameters.  Of rxjs it takes the major version, which decides how
  \<^verbatim>\<open>debounce\<close> reads the end of its timer and what happens to a subscriber whose callback
  throws.  Of vscode-uri it takes \<open>uriScheme\<close>: \<open>uriScheme lib u\<close> is what
  \<^verbatim>\<open>Uri.parse(u).scheme\<close> evaluates to, the scheme of the URI or the error that \<^verbatim>\<open>Uri.parse\<close>
  throws.
\<close>

datatype RxJS = RxJS6 | RxJS7

record Libraries =
  rxjs :: RxJS
  uriScheme :: "string \<Rightarrow> error + string"

section \<open>Settings and URIs\<close>

text \<open>
  \<^verbatim>\<open>CSpellUserSettings\<close> is an interface whose members are all optional.  The records keep
  the members that \<^verbatim>\<open>server.ts\<close> and \<^verbatim>\<open>documentSettings.ts\<close> read or write; an absent
  member (\<^verbatim>\<open>undefined\<close>) is \<open>None\<close>.  The member \<^verbatim>\<open>id\<close> is named \<open>settingsId\<close> here.
  The member \<^verbatim>\<open>overrides\<close> holds the per-file rules: each is a glob for file names with the
  settings to use for the files that match.  (A rule of cspell-lib is a settings object
  again; the model does not nest rules, so a rule carries a \<open>Settings\<close>.)
\<close>

record Settings =
  settingsId :: "string option"
  enabled :: "bool option"
  checkLimit :: "int option"
  spellCheckDelayMs :: "int option"
  enabledLanguageIds :: "string list option"
  allowedSchemas :: "string list option"
  ignorePaths :: "string list option"

record CSpellUserSettings = Settings +
  overrides :: "(string \<times> Settings) list option"

definition emptySettings :: CSpellUserSettings where
  "emptySettings = \<lparr> settingsId = None, enabled = None, checkLimit = None, spellCheckDelayMs = None,
     enabledLanguageIds = None, allowedSchemas = None, ignorePaths = None, overrides = None \<rparr>"

text \<open>The scalar members: a later source replaces an earlier one.\<close>

definition takeRight :: "'a option \<Rightarrow> 'a option \<Rightarrow> 'a option" where
  "takeRight l r = (case r of None \<Rightarrow> l | Some v \<Rightarrow> Some v)"

text \<open>The array-valued members: the two lists are concatenated.\<close>

definition mergeList :: "'a list option \<Rightarrow> 'a list option \<Rightarrow> 'a list option" where
  "mergeList l r = (case l of None \<Rightarrow> r | Some a \<Rightarrow> (case r of None \<Rightarrow> Some a | Some b \<Rightarrow> Some (a @ b)))"

text \<open>
  Modelled from the spec: \<^verbatim>\<open>CSpell.mergeSettings\<close> of the library cspell-lib, which is not
  part of the sources.  The spec gives its rule: sources are merged left to right, a later
  source overrides an earlier one on a conflicting scalar key, and array-valued keys are
  concatenated, never replaced.
\<close>

definition merge :: "CSpellUserSettings \<Rightarrow> CSpellUserSettings \<Rightarrow> CSpellUserSettings" where
  "merge l r = \<lparr> settingsId = takeRight (settingsId l) (settingsId r),
     enabled = takeRight (enabled l) (enabled r),
     checkLimit = takeRight (checkLimit l) (checkLimit r),
     spellCheckDelayMs = takeRight (spellCheckDelayMs l) (spellCheckDelayMs r),
     enabledLanguageIds = mergeList (enabledLanguageIds l) (enabledLanguageIds r),
     allowedSchemas = mergeList (allowedSchemas l) (allowedSchemas r),
     ignorePaths = mergeList (ignorePaths l) (ignorePaths r),
     overrides = mergeList (overrides l) (overrides r) \<rparr>"

text \<open>\<^verbatim>\<open>mergeSettings(left, ...settings)\<close> is variadic: a left fold of the binary merge.\<close>

definition mergeSettings :: "CSpellUserSettings \<Rightarrow> CSpellUserSettings list \<Rightarrow> CSpellUserSettings" where
  "mergeSettings left rest = foldl merge left rest"

definition defaultAllowedSchemes :: "string list" where
  "defaultAllowedSchemes = [''file'', ''untitled'']"

definition schemeBlackList :: "string list" where
  "schemeBlackList = [''git'', ''output'', ''debug'', ''vscode'']"

text \<open>\<^verbatim>\<open>Array.prototype.findIndex\<close>: the index of the first match, or \<open>-1\<close>.\<close>

fun findIndex :: "('a \<Rightarrow> bool) \<Rightarrow> 'a list \<Rightarrow> int" where
  "findIndex P [] = - 1"
| "findIndex P (x # xs) =
     (if P x then 0 else (let i = findIndex P xs in if i < 0 then - 1 else i + 1))"

text \<open>
  \<^verbatim>\<open>doesUriMatchAnyScheme\<close>: the URI is parsed first; what \<^verbatim>\<open>Uri.parse\<close> throws, the function
  throws.
\<close>

definition doesUriMatchAnyScheme :: "Libraries \<Rightarrow> string \<Rightarrow> string list \<Rightarrow> error + bool" where
  "doesUriMatchAnyScheme lib uri schemes =
     (case uriScheme lib uri of
        Inl e \<Rightarrow> Inl e
      | Inr schema \<Rightarrow> Inr (findIndex (\<lambda>v. v = schema) schemes \<ge> 0))"

text \<open>\<^verbatim>\<open>schemes = schemes || defaultAllowedSchemes\<close>: an array, even an empty one, is truthy.\<close>

definition isUriAllowed :: "Libraries \<Rightarrow> string \<Rightarrow> string list option \<Rightarrow> error + bool" where
  "isUriAllowed lib uri schemes =
     doesUriMatchAnyScheme lib uri (case schemes of None \<Rightarrow> defaultAllowedSchemes | Some l \<Rightarrow> l)"

definition isUriBlackListed :: "Libraries \<Rightarrow> string \<Rightarrow> error + bool" where
  "isUriBlackListed lib uri = doesUriMatchAnyScheme lib uri schemeBlackList"

section \<open>Workspace folders\<close>

record WorkspaceFolder =
  folder_uri :: string
  folder_name :: string

text \<open>
  \<^verbatim>\<open>matchingFoldersForUri\<close>: \<^verbatim>\<open>docUri.slice(0, uri.length)\<close> is \<open>take\<close>; the comparator
  \<^verbatim>\<open>a.uri.length - b.uri.length\<close> sorts by ascending length, and the result is reversed.
\<close>

definition matchingFolders :: "WorkspaceFolder list \<Rightarrow> string \<Rightarrow> WorkspaceFolder list" where
  "matchingFolders folders docUri =
     rev (sort_key (\<lambda>f. length (folder_uri f))
        (filter (\<lambda>f. folder_uri f = take (length (folder_uri f)) docUri) folders))"

section \<open>DocumentSettings: the settings resolver and its caches\<close>

text \<open>
  What \<^verbatim>\<open>DocumentSettings\<close> asks of the outside world: the connection to the editor, the file
  system, and the library functions of vscode-uri and cspell-lib whose code is not in the
  sources.  Every operation takes the world as it is at the moment of the call, so a
  changed configuration is a different \<open>Env\<close>.
\<close>

record Env =
  getWorkspaceFolders :: "WorkspaceFolder list option"
  getConfiguration :: "string option \<Rightarrow> CSpellUserSettings option \<times> string list"
  existsSync :: "string \<Rightarrow> bool"
  cspellReadSettingsFiles :: "string list \<Rightarrow> CSpellUserSettings"
  defaultSettingsFilename :: string
  checkFilenameMatchesGlob :: "string \<Rightarrow> string \<Rightarrow> bool"
  pathJoin :: "string list \<Rightarrow> string"
  uriFsPath :: "string \<Rightarrow> string"
  uriPath :: "string \<Rightarrow> string"
  uriRoot :: "string \<Rightarrow> string"
  globMatch :: "string list \<Rightarrow> string \<Rightarrow> string \<Rightarrow> bool"

text \<open>
  \<open>getWorkspaceFolders\<close> is \<^verbatim>\<open>vscode.getWorkspaceFolders(connection)\<close>;
  \<open>getConfiguration scope\<close> is \<^verbatim>\<open>vscode.getConfiguration\<close> for the sections \<^verbatim>\<open>cSpell\<close>
  (scoped) and \<^verbatim>\<open>search\<close>, the second already reduced to the globs of its \<^verbatim>\<open>exclude\<close> map;
  \<open>existsSync\<close> is \<^verbatim>\<open>fs.existsSync\<close>;
  \<open>cspellReadSettingsFiles\<close> is \<^verbatim>\<open>CSpell.readSettingsFiles\<close>, which reads and merges the files
  at the given paths; \<open>defaultSettingsFilename\<close> is the constant
  \<^verbatim>\<open>CSpell.defaultSettingsFilename\<close>; \<open>checkFilenameMatchesGlob filename glob\<close> is the test
  cspell-lib uses for the file names of override rules; \<open>pathJoin\<close> is \<^verbatim>\<open>path.join\<close>;
  \<open>uriFsPath u\<close> is \<^verbatim>\<open>Uri.parse(u).fsPath\<close> and \<open>uriPath u\<close> is \<^verbatim>\<open>Uri.parse(u).path\<close>;
  \<open>uriRoot u\<close> is \<^verbatim>\<open>Uri.parse(u).with({ path: '' }).toString()\<close>;
  \<open>globMatch globs root\<close> is the matcher \<^verbatim>\<open>new GlobMatcher(globs, root)\<close>.
  The URIs of this part are those of the editor's documents and workspace folders, and
  \<^verbatim>\<open>Uri.parse\<close> is taken to read them; what the server does when \<^verbatim>\<open>Uri.parse\<close> throws is
  modelled where its pipelines depend on it, with \<open>uriScheme\<close>.
\<close>

text \<open>
  Modelled from the spec: \<^verbatim>\<open>CSpell.calcOverrideSettings\<close> of the library cspell-lib, which is
  not part of the sources.  The spec gives its rule: the per-file override rules, which
  are the settings entries scoped to glob patterns that match the file's path, are applied
  on top of the merged result.  The rules are those of the settings themselves, and
  applying one is merging it in.
\<close>

definition overrideSettings :: "Settings \<Rightarrow> CSpellUserSettings" where
  "overrideSettings s = \<lparr> settingsId = settingsId s, enabled = enabled s, checkLimit = checkLimit s,
     spellCheckDelayMs = spellCheckDelayMs s, enabledLanguageIds = enabledLanguageIds s,
     allowedSchemas = allowedSchemas s, ignorePaths = ignorePaths s, overrides = None \<rparr>"

definition matchingOverrides :: "Env \<Rightarrow> CSpellUserSettings \<Rightarrow> string \<Rightarrow> (string \<times> Settings) list" where
  "matchingOverrides env settings filename =
     filter (\<lambda>rule. checkFilenameMatchesGlob env filename (fst rule))
       (case overrides settings of None \<Rightarrow> [] | Some rules \<Rightarrow> rules)"

definition calcOverrideSettings :: "Env \<Rightarrow> CSpellUserSettings \<Rightarrow> string \<Rightarrow> CSpellUserSettings" where
  "calcOverrideSettings env settings filename =
     mergeSettings settings (map (\<lambda>rule. overrideSettings (snd rule)) (matchingOverrides env settings filename))"

record ExtSettings =
  ext_uri :: string
  ext_vscodeSettings :: CSpellUserSettings
  ext_settings :: CSpellUserSettings
  ext_globs :: "string list"
  ext_root :: string

definition defaultExclude :: "string list" where
  "defaultExclude = [''**/*.rendered'', ''**/*.*.rendered'', ''__pycache__/**'']"

text \<open>The six caches and lazy values the class creates, by the member that holds each.\<close>

datatype Clearable =
  GetUriSettings | FetchSettingsForUri | CspellFileSettingsByFolderCache
  | FetchVSCodeConfiguration | Folders | ImportedSettings

text \<open>
  The object.  \<open>cachedValues\<close> is the registry \<^verbatim>\<open>Clearable[]\<close>; the next six members are the
  contents of the caches (the caches hold promises; the record holds what they resolve
  to); \<open>configsToImport\<close> is a \<^verbatim>\<open>Set\<close>, kept as a list without repetition; \<open>dlog\<close> collects
  the calls of \<^verbatim>\<open>log\<close>.
\<close>

record DocumentSettings =
  cachedValues :: "Clearable list"
  c_getUriSettings :: "string \<rightharpoonup> CSpellUserSettings"
  c_fetchSettingsForUri :: "string \<rightharpoonup> ExtSettings"
  c_cspellFileSettingsByFolder :: "string \<rightharpoonup> CSpellUserSettings"
  c_fetchVSCodeConfiguration :: "string \<rightharpoonup> CSpellUserSettings \<times> string list"
  c_folders :: "WorkspaceFolder list option"
  c_importedSettings :: "CSpellUserSettings option"
  configsToImport :: "string list"
  version :: nat
  defaultSettings :: CSpellUserSettings
  dlog :: "(string \<times> string list) list"

text \<open>
  Modelled from the spec: \<^verbatim>\<open>log\<close> of \<^verbatim>\<open>./util\<close>, which is not part of the sources.  It
  writes a line to the log and returns.  It is called with a message and, at some places,
  a URI, a path or a list of paths; the model records the message and the list of these.
\<close>

definition log :: "string \<Rightarrow> string list \<Rightarrow> DocumentSettings \<Rightarrow> DocumentSettings" where
  "log message uris ds = ds\<lparr> dlog := dlog ds @ [(message, uris)] \<rparr>"

text \<open>
  Modelled from the spec: \<^verbatim>\<open>createAutoLoadCache\<close> and \<^verbatim>\<open>createLazyValue\<close> of
  \<^verbatim>\<open>./autoLoad\<close>, which is not part of the sources.  A cache answers \<open>get key\<close> from its
  store, or runs the loader once and stores the result; \<open>clear\<close> evicts every entry.  A
  lazy value is computed at the first call and kept until \<open>clear\<close>.  \<open>clear\<close> on a registry
  entry empties the store that entry stands for.
\<close>

definition clear :: "Clearable \<Rightarrow> DocumentSettings \<Rightarrow> DocumentSettings" where
  "clear c ds =
     (case c of
        GetUriSettings \<Rightarrow> ds\<lparr> c_getUriSettings := Map.empty \<rparr>
      | FetchSettingsForUri \<Rightarrow> ds\<lparr> c_fetchSettingsForUri := Map.empty \<rparr>
      | CspellFileSettingsByFolderCache \<Rightarrow> ds\<lparr> c_cspellFileSettingsByFolder := Map.empty \<rparr>
      | FetchVSCodeConfiguration \<Rightarrow> ds\<lparr> c_fetchVSCodeConfiguration := Map.empty \<rparr>
      | Folders \<Rightarrow> ds\<lparr> c_folders := None \<rparr>
      | ImportedSettings \<Rightarrow> ds\<lparr> c_importedSettings := None \<rparr>)"

text \<open>\<^verbatim>\<open>createCache\<close> and \<^verbatim>\<open>createLazy\<close>: the new cache is pushed on the registry.\<close>

definition createCache :: "Clearable \<Rightarrow> DocumentSettings \<Rightarrow> DocumentSettings" where
  "createCache c ds = ds\<lparr> cachedValues := cachedValues ds @ [c] \<rparr>"

definition createLazy :: "Clearable \<Rightarrow> DocumentSettings \<Rightarrow> DocumentSettings" where
  "createLazy c ds = ds\<lparr> cachedValues := cachedValues ds @ [c] \<rparr>"

text \<open>The constructor: the member initialisers run in the order of the class body.\<close>

definition newDocumentSettings :: "CSpellUserSettings \<Rightarrow> DocumentSettings" where
  "newDocumentSettings defaults =
     (let ds0 = \<lparr> cachedValues = [], c_getUriSettings = Map.empty,
                  c_fetchSettingsForUri = Map.empty, c_cspellFileSettingsByFolder = Map.empty,
                  c_fetchVSCodeConfiguration = Map.empty, c_folders = None,
                  c_importedSettings = None, configsToImport = [], version = 0,
                  defaultSettings = defaults, dlog = [] \<rparr>;
          ds1 = createCache GetUriSettings ds0;
          ds2 = createCache FetchSettingsForUri ds1;
          ds3 = createCache CspellFileSettingsByFolderCache ds2;
          ds4 = createCache FetchVSCodeConfiguration ds3;
          ds5 = createLazy Folders ds4;
          ds6 = createLazy ImportedSettings ds5
      in ds6)"

text \<open>\<^verbatim>\<open>resetSettings\<close>: every registered cache is cleared, then the version is incremented.\<close>

definition resetSettings :: "DocumentSettings \<Rightarrow> DocumentSettings" where
  "resetSettings ds =
     (let ds1 = log ''resetSettings'' [] ds;
          ds2 = fold clear (cachedValues ds1) ds1
      in ds2\<lparr> version := version ds2 + 1 \<rparr>)"

definition registerConfigurationFile :: "string \<Rightarrow> DocumentSettings \<Rightarrow> DocumentSettings" where
  "registerConfigurationFile path ds =
     (let ds1 = log ''registerConfigurationFile:'' [path] ds;
          ds2 = ds1\<lparr> configsToImport := List.insert path (configsToImport ds1) \<rparr>;
          ds3 = clear ImportedSettings ds2
      in resetSettings ds3)"

text \<open>\<^verbatim>\<open>fetchFolders\<close> behind the lazy value \<^verbatim>\<open>_folders\<close>.\<close>

definition folders :: "Env \<Rightarrow> DocumentSettings \<Rightarrow> WorkspaceFolder list \<times> DocumentSettings" where
  "folders env ds =
     (case c_folders ds of
        Some fs \<Rightarrow> (fs, ds)
      | None \<Rightarrow>
          (let fs = (case getWorkspaceFolders env of None \<Rightarrow> [] | Some l \<Rightarrow> l)
           in (fs, ds\<lparr> c_folders := Some fs \<rparr>)))"

text \<open>\<^verbatim>\<open>_importSettings\<close> behind the lazy value \<^verbatim>\<open>importedSettings\<close>.\<close>

definition importedSettings :: "Env \<Rightarrow> DocumentSettings \<Rightarrow> CSpellUserSettings \<times> DocumentSettings" where
  "importedSettings env ds =
     (case c_importedSettings ds of
        Some v \<Rightarrow> (v, ds)
      | None \<Rightarrow>
          (let ds1 = log ''importSettings'' [] ds;
               v = cspellReadSettingsFiles env (sort (configsToImport ds1))
           in (v, ds1\<lparr> c_importedSettings := Some v \<rparr>)))"

text \<open>\<^verbatim>\<open>_fetchVSCodeConfiguration\<close> behind its cache; \<^verbatim>\<open>uri || undefined\<close> is the scope.\<close>

definition fetchVSCodeConfiguration ::
  "Env \<Rightarrow> string \<Rightarrow> DocumentSettings \<Rightarrow> (CSpellUserSettings \<times> string list) \<times> DocumentSettings" where
  "fetchVSCodeConfiguration env key ds =
     (case c_fetchVSCodeConfiguration ds key of
        Some v \<Rightarrow> (v, ds)
      | None \<Rightarrow>
          (let (cfg, exclude) = getConfiguration env (if key = [] then None else Some key);
               v = ((case cfg of None \<Rightarrow> emptySettings | Some c \<Rightarrow> c), exclude)
           in (v, ds\<lparr> c_fetchVSCodeConfiguration := (c_fetchVSCodeConfiguration ds)(key \<mapsto> v) \<rparr>)))"

definition fetchSettingsFromVSCode ::
  "Env \<Rightarrow> string \<Rightarrow> DocumentSettings \<Rightarrow> CSpellUserSettings \<times> DocumentSettings" where
  "fetchSettingsFromVSCode env uri ds =
     (let ((cSpell, exclude), ds1) = fetchVSCodeConfiguration env uri ds;
          paths = (case ignorePaths cSpell of None \<Rightarrow> [] | Some l \<Rightarrow> l)
      in (cSpell\<lparr> settingsId := Some ''VSCode-Config'', ignorePaths := Some (paths @ exclude) \<rparr>, ds1))"

text \<open>\<^verbatim>\<open>String.prototype.toLowerCase\<close>, on the letters of ASCII.\<close>

definition toLowerCase :: "string \<Rightarrow> string" where
  "toLowerCase s =
     map (\<lambda>c. if CHR ''A'' \<le> c \<and> c \<le> CHR ''Z'' then char_of (of_char c + (32::nat)) else c) s"

text \<open>
  \<^verbatim>\<open>configPathsForRoot\<close>: the four places where the configuration file of a folder is looked
  for.  An empty URI, or an empty file-system path, gives no place.
\<close>

definition configPathsForRoot :: "Env \<Rightarrow> string \<Rightarrow> string list" where
  "configPathsForRoot env workspaceRootUri =
     (let workspaceRoot = (if workspaceRootUri \<noteq> [] then uriFsPath env workspaceRootUri else [])
      in if workspaceRoot \<noteq> []
         then [pathJoin env [workspaceRoot, ''.vscode'', toLowerCase (defaultSettingsFilename env)],
               pathJoin env [workspaceRoot, ''.vscode'', defaultSettingsFilename env],
               pathJoin env [workspaceRoot, toLowerCase (defaultSettingsFilename env)],
               pathJoin env [workspaceRoot, defaultSettingsFilename env]]
         else [])"

text \<open>
  \<^verbatim>\<open>readSettingsFiles\<close>, the function of \<^verbatim>\<open>documentSettings.ts\<close>: it logs the paths, keeps
  those that exist and hands them to the library.
\<close>

definition readSettingsFiles ::
  "Env \<Rightarrow> string list \<Rightarrow> DocumentSettings \<Rightarrow> CSpellUserSettings \<times> DocumentSettings" where
  "readSettingsFiles env paths ds =
     (let ds1 = log ''readSettingsFiles:'' paths ds;
          existingPaths = filter (existsSync env) paths
      in (cspellReadSettingsFiles env existingPaths, ds1))"

text \<open>\<^verbatim>\<open>readSettingsForFolderUri\<close> behind the cache \<^verbatim>\<open>_cspellFileSettingsByFolderCache\<close>.\<close>

definition readSettingsForFolderUri ::
  "Env \<Rightarrow> string \<Rightarrow> DocumentSettings \<Rightarrow> CSpellUserSettings \<times> DocumentSettings" where
  "readSettingsForFolderUri env uri ds =
     (if uri \<noteq> [] then readSettingsFiles env (configPathsForRoot env uri) ds else (emptySettings, ds))"

definition cspellFileSettingsByFolderCache ::
  "Env \<Rightarrow> string \<Rightarrow> DocumentSettings \<Rightarrow> CSpellUserSettings \<times> DocumentSettings" where
  "cspellFileSettingsByFolderCache env key ds =
     (case c_cspellFileSettingsByFolder ds key of
        Some v \<Rightarrow> (v, ds)
      | None \<Rightarrow>
          (let (v, ds1) = readSettingsForFolderUri env key ds
           in (v, ds1\<lparr> c_cspellFileSettingsByFolder := (c_cspellFileSettingsByFolder ds1)(key \<mapsto> v) \<rparr>)))"

text \<open>
  \<^verbatim>\<open>_fetchSettingsForFolderUri\<close>.  The merge has the editor's settings on the left and the
  settings of the folder's configuration files on the right.
\<close>

definition fetchSettingsForFolderUri ::
  "Env \<Rightarrow> string \<Rightarrow> DocumentSettings \<Rightarrow> ExtSettings \<times> DocumentSettings" where
  "fetchSettingsForFolderUri env uri ds =
     (let ds1 = log (''fetchFolderSettings: URI '' @ uri) [] ds;
          (cSpellConfigSettings, ds2) = fetchSettingsFromVSCode env uri ds1;
          (settings, ds3) = cspellFileSettingsByFolderCache env uri ds2;
          mergedSettings = mergeSettings cSpellConfigSettings [settings];
          globs = defaultExclude @ (case ignorePaths mergedSettings of None \<Rightarrow> [] | Some l \<Rightarrow> l)
      in (\<lparr> ext_uri = uri, ext_vscodeSettings = cSpellConfigSettings,
            ext_settings = mergedSettings, ext_globs = globs, ext_root = uriPath env uri \<rparr>, ds3))"

definition fetchSettingsForUri ::
  "Env \<Rightarrow> string \<Rightarrow> DocumentSettings \<Rightarrow> ExtSettings \<times> DocumentSettings" where
  "fetchSettingsForUri env key ds =
     (case c_fetchSettingsForUri ds key of
        Some v \<Rightarrow> (v, ds)
      | None \<Rightarrow>
          (let (v, ds1) = fetchSettingsForFolderUri env key ds
           in (v, ds1\<lparr> c_fetchSettingsForUri := (c_fetchSettingsForUri ds1)(key \<mapsto> v) \<rparr>)))"

definition matchingFoldersForUri ::
  "Env \<Rightarrow> string \<Rightarrow> DocumentSettings \<Rightarrow> WorkspaceFolder list \<times> DocumentSettings" where
  "matchingFoldersForUri env docUri ds =
     (let (fs, ds1) = folders env ds in (matchingFolders fs docUri, ds1))"

text \<open>
  \<^verbatim>\<open>findMatchingFolder\<close>: the first match, or a folder made of the document's own root.
  \<open>defaultRootUri\<close> is \<^verbatim>\<open>Uri.file('').toString()\<close>.
\<close>

definition defaultRootUri :: string where
  "defaultRootUri = ''file:///''"

definition findMatchingFolder ::
  "Env \<Rightarrow> string \<Rightarrow> DocumentSettings \<Rightarrow> WorkspaceFolder \<times> DocumentSettings" where
  "findMatchingFolder env docUri ds =
     (let root = uriRoot env (if docUri = [] then defaultRootUri else docUri);
          (ms, ds1) = matchingFoldersForUri env docUri ds
      in (case ms of
            [] \<Rightarrow> (\<lparr> folder_uri = root, folder_name = ''root'' \<rparr>, ds1)
          | m # _ \<Rightarrow> (m, ds1)))"

definition fetchUriSettings ::
  "Env \<Rightarrow> string \<Rightarrow> DocumentSettings \<Rightarrow> CSpellUserSettings \<times> DocumentSettings" where
  "fetchUriSettings env uri ds =
     (let ds1 = log ''Start fetchUriSettings:'' [uri] ds;
          (folder, ds2) = findMatchingFolder env uri ds1;
          (folderSettings, ds3) = fetchSettingsForUri env (folder_uri folder) ds2;
          (imported, ds4) = importedSettings env ds3;
          spellSettings = mergeSettings (defaultSettings ds4) [imported, ext_settings folderSettings];
          fileSettings = calcOverrideSettings env spellSettings (uriFsPath env uri);
          ds5 = log ''Finish fetchUriSettings:'' [uri] ds4
      in (fileSettings, ds5))"

text \<open>\<^verbatim>\<open>_getUriSettings\<close> and, behind its cache, \<^verbatim>\<open>getUriSettings\<close>.\<close>

definition getUriSettingsLoader ::
  "Env \<Rightarrow> string \<Rightarrow> DocumentSettings \<Rightarrow> CSpellUserSettings \<times> DocumentSettings" where
  "getUriSettingsLoader env uri ds =
     (let ds1 = log ''getUriSettings:'' [uri] ds
      in if uri \<noteq> [] then fetchUriSettings env uri ds1
         else (let (imported, ds2) = importedSettings env ds1
               in (mergeSettings (defaultSettings ds2) [imported], ds2)))"

definition getUriSettings ::
  "Env \<Rightarrow> string \<Rightarrow> DocumentSettings \<Rightarrow> CSpellUserSettings \<times> DocumentSettings" where
  "getUriSettings env key ds =
     (case c_getUriSettings ds key of
        Some v \<Rightarrow> (v, ds)
      | None \<Rightarrow>
          (let (v, ds1) = getUriSettingsLoader env key ds
           in (v, ds1\<lparr> c_getUriSettings := (c_getUriSettings ds1)(key \<mapsto> v) \<rparr>)))"

text \<open>\<^verbatim>\<open>findMatchingFolderSettings\<close> and \<^verbatim>\<open>isExcluded\<close>.\<close>

fun fetchAll :: "Env \<Rightarrow> string list \<Rightarrow> DocumentSettings \<Rightarrow> ExtSettings list \<times> DocumentSettings" where
  "fetchAll env [] ds = ([], ds)"
| "fetchAll env (u # us) ds =
     (let (v, ds1) = fetchSettingsForUri env u ds;
          (vs, ds2) = fetchAll env us ds1
      in (v # vs, ds2))"

definition findMatchingFolderSettings ::
  "Env \<Rightarrow> string \<Rightarrow> DocumentSettings \<Rightarrow> ExtSettings list \<times> DocumentSettings" where
  "findMatchingFolderSettings env docUri ds =
     (let (ms, ds1) = matchingFoldersForUri env docUri ds
      in if ms \<noteq> [] then fetchAll env (map folder_uri ms) ds1
         else (let (fs, ds2) = folders env ds1;
                   uri = (case fs of [] \<Rightarrow> docUri | f # _ \<Rightarrow> folder_uri f);
                   (v, ds3) = fetchSettingsForUri env uri ds2
               in ([v], ds3)))"

definition isExcluded :: "Env \<Rightarrow> string \<Rightarrow> DocumentSettings \<Rightarrow> bool \<times> DocumentSettings" where
  "isExcluded env uri ds =
     (let (settingsByWorkspaceFolder, ds1) = findMatchingFolderSettings env uri ds
      in (list_ex (\<lambda>s. globMatch env (ext_globs s) (ext_root s) (uriPath env uri)) settingsByWorkspaceFolder, ds1))"

text \<open>The calls a client of the object can make, and a run of them from a given object.\<close>

datatype Call =
  CallGetUriSettings Env string
  | CallIsExcluded Env string
  | CallFolders Env
  | CallRegisterConfigurationFile string
  | CallResetSettings

fun call :: "DocumentSettings \<Rightarrow> Call \<Rightarrow> DocumentSettings" where
  "call ds (CallGetUriSettings env uri) = snd (getUriSettings env uri ds)"
| "call ds (CallIsExcluded env uri) = snd (isExcluded env uri ds)"
| "call ds (CallFolders env) = snd (folders env ds)"
| "call ds (CallRegisterConfigurationFile path) = registerConfigurationFile path ds"
| "call ds CallResetSettings = resetSettings ds"

definition calls :: "DocumentSettings \<Rightarrow> Call list \<Rightarrow> DocumentSettings" where
  "calls ds cs = foldl call ds cs"

section \<open>The resolution as the specification words it\<close>

text \<open>
  The specification describes the resolution without caches: the owning folder is the
  longest matching workspace folder, or a folder made of the document's root; the folder's
  settings are the editor's settings merged with the settings of the folder's
  configuration files; the effective settings are the defaults, the imported settings and
  the folder's settings merged in this order, with the per-file overrides applied on top.
  The empty URI resolves to the defaults merged with the imported settings.  These
  definitions read the world directly; the theorems below compare the cached operations
  with them.
\<close>

definition spec_hostSettings :: "Env \<Rightarrow> string \<Rightarrow> CSpellUserSettings" where
  "spec_hostSettings env uri =
     (let cSpell = (case fst (getConfiguration env (if uri = [] then None else Some uri)) of
                      None \<Rightarrow> emptySettings | Some c \<Rightarrow> c);
          exclude = snd (getConfiguration env (if uri = [] then None else Some uri))
      in cSpell\<lparr> settingsId := Some ''VSCode-Config'',
                  ignorePaths := Some ((case ignorePaths cSpell of None \<Rightarrow> [] | Some l \<Rightarrow> l) @ exclude) \<rparr>)"

definition spec_fileSettings :: "Env \<Rightarrow> string \<Rightarrow> CSpellUserSettings" where
  "spec_fileSettings env uri =
     (if uri = [] then emptySettings
      else cspellReadSettingsFiles env (filter (existsSync env) (configPathsForRoot env uri)))"

definition spec_folderSettings :: "Env \<Rightarrow> string \<Rightarrow> CSpellUserSettings" where
  "spec_folderSettings env uri = merge (spec_hostSettings env uri) (spec_fileSettings env uri)"

definition spec_owningFolder :: "Env \<Rightarrow> string \<Rightarrow> WorkspaceFolder" where
  "spec_owningFolder env uri =
     (case matchingFolders (case getWorkspaceFolders env of None \<Rightarrow> [] | Some l \<Rightarrow> l) uri of
        [] \<Rightarrow> \<lparr> folder_uri = uriRoot env uri, folder_name = ''root'' \<rparr>
      | m # _ \<Rightarrow> m)"

definition spec_resolve :: "Env \<Rightarrow> CSpellUserSettings \<Rightarrow> string list \<Rightarrow> string \<Rightarrow> CSpellUserSettings" where
  "spec_resolve env defaults imports uri =
     (if uri = [] then merge defaults (cspellReadSettingsFiles env (sort imports))
      else calcOverrideSettings env
             (merge (merge defaults (cspellReadSettingsFiles env (sort imports)))
                (spec_folderSettings env (folder_uri (spec_owningFolder env uri))))
             (uriFsPath env uri))"

text \<open>No cache and no lazy value holds anything.\<close>

definition cachesEmpty :: "DocumentSettings \<Rightarrow> bool" where
  "cachesEmpty ds = (c_getUriSettings ds = Map.empty \<and> c_fetchSettingsForUri ds = Map.empty
     \<and> c_cspellFileSettingsByFolder ds = Map.empty \<and> c_fetchVSCodeConfiguration ds = Map.empty
     \<and> c_folders ds = None \<and> c_importedSettings ds = None)"

text \<open>The registry as the constructor leaves it.\<close>

definition allClearables :: "Clearable list" where
  "allClearables = [GetUriSettings, FetchSettingsForUri, CspellFileSettingsByFolderCache,
     FetchVSCodeConfiguration, Folders, ImportedSettings]"

section \<open>The server: one validation pipeline per document\<close>

record TextDocument =
  doc_uri :: string
  doc_languageId :: string
  doc_version :: int

type_synonym Diagnostic = string

text \<open>\<^verbatim>\<open>ValidationResult\<close> is \<^verbatim>\<open>{ uri, diagnostics }\<close>.\<close>

type_synonym ValidationResult = "string \<times> Diagnostic list"

record DocSettingPair =
  dsp_doc :: TextDocument
  dsp_settings :: CSpellUserSettings

text \<open>
  What the server does that can be seen from outside, in the order it happens: the lines
  it logs (without the version numbers), a call of the server's \<^verbatim>\<open>validateTextDocument\<close>,
  the call of the analyzer \<^verbatim>\<open>Validator.validateTextDocument\<close> and its return, the
  diagnostics sent to the editor, and an error that reaches no handler (RxJS hands it to
  the host, which throws it again outside of the server's code).
\<close>

datatype Action =
  Log string string
  | LogError string
  | ValidateTextDocument string
  | ValidatorCall string
  | ValidatorDone string
  | SendDiagnostics string "Diagnostic list"
  | UnhandledError error

text \<open>The delay of the debounce: \<^verbatim>\<open>dsp.settings.spellCheckDelayMs || defaultDebounce\<close>.\<close>

definition defaultDebounce :: int where
  "defaultDebounce = 50"

text \<open>\<^verbatim>\<open>a || b\<close> on an optional number: \<^verbatim>\<open>undefined\<close> and \<open>0\<close> are falsy.\<close>

definition numberOr :: "int option \<Rightarrow> int \<Rightarrow> int" where
  "numberOr a b = (case a of None \<Rightarrow> b | Some n \<Rightarrow> if n = 0 then b else n)"

definition debounceDelay :: "CSpellUserSettings \<Rightarrow> int" where
  "debounceDelay settings = numberOr (spellCheckDelayMs settings) defaultDebounce"

text \<open>
  \<^verbatim>\<open>isLanguageEnabled\<close>: \<^verbatim>\<open>enabledLanguageIds\<close> defaults to the empty array, and
  \<^verbatim>\<open>indexOf(x) >= 0\<close> is a search for an equal element.
\<close>

definition isLanguageEnabled :: "TextDocument \<Rightarrow> CSpellUserSettings \<Rightarrow> bool" where
  "isLanguageEnabled textDocument settings =
     (findIndex (\<lambda>l. l = doc_languageId textDocument)
        (case enabledLanguageIds settings of None \<Rightarrow> [] | Some l \<Rightarrow> l) \<ge> 0)"

text \<open>A value of type \<^verbatim>\<open>boolean | undefined\<close> in a condition: only \<^verbatim>\<open>true\<close> is truthy.\<close>

definition truthy :: "bool option \<Rightarrow> bool" where
  "truthy b = (b = Some True)"

subsection \<open>The body of \<^verbatim>\<open>validate\<close>, await by await\<close>

text \<open>
  \<^verbatim>\<open>validate\<close> (\<^verbatim>\<open>server.ts\<close>, lines 273 to 299) is an async function: it runs until an
  \<^verbatim>\<open>await\<close> on something the server
  has to wait for, and is resumed when that settles.  It waits at three places: for
  \<^verbatim>\<open>isUriExcluded(uri)\<close> inside \<^verbatim>\<open>shouldValidateDocument\<close>, for
  \<^verbatim>\<open>getSettingsToUseForDocument(doc)\<close>, and for the analyzer.  What a wait settles to is
  a value or a rejection.
\<close>

datatype AwaitPoint = AwaitIsUriExcluded | AwaitSettingsToUse | AwaitValidator

datatype Resolution =
  IsUriExcluded "error + bool"
  | SettingsToUse "error + CSpellUserSettings"
  | ValidatorResult "error + Diagnostic list"

text \<open>
  Where the \<^verbatim>\<open>try\<close> block stands after a run: it returned, it ran off its end (the \<^verbatim>\<open>if\<close>
  on \<^verbatim>\<open>settingsToUse.enabled\<close> failed), it threw, or it waits.
\<close>

datatype TryStep = Return ValidationResult | EndOfTry | Throw error | Await AwaitPoint

text \<open>
  From the entry of the \<^verbatim>\<open>try\<close> block to the first wait.  \<^verbatim>\<open>isUriAllowed\<close> parses the
  URI, inside the \<^verbatim>\<open>try\<close> block.  \<^verbatim>\<open>shouldValidateDocument\<close> is
  \<^verbatim>\<open>!!settings.enabled && isLanguageEnabled(..) && !await isUriExcluded(uri)\<close>: when one of
  the first two operands is false, \<^verbatim>\<open>isUriExcluded\<close> is not called.
\<close>

definition tryBegin :: "Libraries \<Rightarrow> DocSettingPair \<Rightarrow> Action list \<times> TryStep" where
  "tryBegin lib dsp =
     (let doc = dsp_doc dsp; settings = dsp_settings dsp; uri = doc_uri doc
      in (case isUriAllowed lib uri (allowedSchemas settings) of
            Inl e \<Rightarrow> ([], Throw e)
          | Inr allowed \<Rightarrow>
              if \<not> allowed
              then ([Log ''Schema not allowed, skipping:'' uri], Return (uri, []))
              else if truthy (enabled settings) \<and> isLanguageEnabled doc settings
              then ([], Await AwaitIsUriExcluded)
              else ([Log ''validateTextDocument skip:'' uri], Return (uri, []))))"

text \<open>
  From a wait to the next one.  A rejection is thrown by the \<^verbatim>\<open>await\<close>.  The result is
  \<open>None\<close> when the resolution is not the one the function waits for.
\<close>

definition tryResume :: "DocSettingPair \<Rightarrow> AwaitPoint \<Rightarrow> Resolution \<Rightarrow> (Action list \<times> TryStep) option" where
  "tryResume dsp point res =
     (let uri = doc_uri (dsp_doc dsp)
      in (case (point, res) of
            (AwaitIsUriExcluded, IsUriExcluded (Inl e)) \<Rightarrow> Some ([], Throw e)
          | (AwaitIsUriExcluded, IsUriExcluded (Inr excluded)) \<Rightarrow>
              if excluded then Some ([Log ''validateTextDocument skip:'' uri], Return (uri, []))
              else Some ([], Await AwaitSettingsToUse)
          | (AwaitSettingsToUse, SettingsToUse (Inl e)) \<Rightarrow> Some ([], Throw e)
          | (AwaitSettingsToUse, SettingsToUse (Inr settingsToUse)) \<Rightarrow>
              if truthy (enabled settingsToUse)
              then Some ([Log ''Validate File'' uri, Log ''validateTextDocument start'' uri,
                          ValidatorCall uri], Await AwaitValidator)
              else Some ([], EndOfTry)
          | (AwaitValidator, ValidatorResult (Inl e)) \<Rightarrow> Some ([], Throw e)
          | (AwaitValidator, ValidatorResult (Inr diagnostics)) \<Rightarrow>
              Some ([ValidatorDone uri, Log ''validateTextDocument done'' uri], Return (uri, diagnostics))
          | _ \<Rightarrow> None))"

text \<open>
  What a run of \<^verbatim>\<open>validate\<close> comes to: it returned a result, it threw (its promise is
  rejected), or it waits.
\<close>

datatype Completion = Returned ValidationResult | Thrown error | Waits AwaitPoint

text \<open>
  The \<^verbatim>\<open>catch\<close> clause and the statement after the \<^verbatim>\<open>try\<close>.  The clause is
  \<^verbatim>\<open>logError(`validateTextDocument: ${JSON.stringify(e)}`)\<close>: when \<^verbatim>\<open>JSON.stringify\<close> throws,
  nothing is logged and \<^verbatim>\<open>validate\<close> throws what \<^verbatim>\<open>JSON.stringify\<close> threw; otherwise the error
  is logged, and both this and the end of the \<^verbatim>\<open>try\<close> block lead to
  \<^verbatim>\<open>return { uri, diagnostics: [] }\<close>.

  Modelled from the spec: \<^verbatim>\<open>logError\<close> of \<^verbatim>\<open>./util\<close>, which is not part of the sources.  It
  writes a line to the log at the error level and returns.
\<close>

definition catchThenReturn :: "DocSettingPair \<Rightarrow> TryStep \<Rightarrow> Action list \<times> Completion" where
  "catchThenReturn dsp st =
     (case st of
        Return r \<Rightarrow> ([], Returned r)
      | EndOfTry \<Rightarrow> ([], Returned (doc_uri (dsp_doc dsp), []))
      | Throw e \<Rightarrow>
          (case stringify e of
             Inl e' \<Rightarrow> ([], Thrown e')
           | Inr text \<Rightarrow>
               ([LogError (''validateTextDocument: '' @ text)], Returned (doc_uri (dsp_doc dsp), [])))
      | Await p \<Rightarrow> ([], Waits p))"

definition validateBegin :: "Libraries \<Rightarrow> DocSettingPair \<Rightarrow> Action list \<times> Completion" where
  "validateBegin lib dsp =
     (let (a1, st) = tryBegin lib dsp; (a2, r) = catchThenReturn dsp st in (a1 @ a2, r))"

definition validateResume ::
  "DocSettingPair \<Rightarrow> AwaitPoint \<Rightarrow> Resolution \<Rightarrow> (Action list \<times> Completion) option" where
  "validateResume dsp point res =
     (case tryResume dsp point res of
        None \<Rightarrow> None
      | Some (a1, st) \<Rightarrow> (let (a2, r) = catchThenReturn dsp st in Some (a1 @ a2, r)))"

text \<open>
  \<^verbatim>\<open>validate\<close> run to its end against given resolutions of its three waits.  The outcome of
  an async function is a promise: resolved with a value, rejected, or never settled.
\<close>

record Resolutions =
  r_isUriExcluded :: "error + bool"
  r_settingsToUse :: "error + CSpellUserSettings"
  r_validator :: "error + Diagnostic list"

definition resolution :: "Resolutions \<Rightarrow> AwaitPoint \<Rightarrow> Resolution" where
  "resolution rs p =
     (case p of
        AwaitIsUriExcluded \<Rightarrow> IsUriExcluded (r_isUriExcluded rs)
      | AwaitSettingsToUse \<Rightarrow> SettingsToUse (r_settingsToUse rs)
      | AwaitValidator \<Rightarrow> ValidatorResult (r_validator rs))"

datatype 'a Promise = Resolved 'a | Rejected error | Pending

fun validateFrom ::
  "nat \<Rightarrow> Resolutions \<Rightarrow> DocSettingPair \<Rightarrow> Action list \<times> Completion
     \<Rightarrow> Action list \<times> ValidationResult Promise" where
  "validateFrom n rs dsp (acts, Returned r) = (acts, Resolved r)"
| "validateFrom n rs dsp (acts, Thrown e) = (acts, Rejected e)"
| "validateFrom 0 rs dsp (acts, Waits p) = (acts, Pending)"
| "validateFrom (Suc n) rs dsp (acts, Waits p) =
     (case validateResume dsp p (resolution rs p) of
        None \<Rightarrow> (acts, Pending)
      | Some (a, r) \<Rightarrow> validateFrom n rs dsp (acts @ a, r))"

text \<open>
  \<^verbatim>\<open>validateTextDocument\<close> awaits \<^verbatim>\<open>validate()\<close> and returns its result, or throws what it
  threw; the function has three waits, one after the other, so three resumptions run it
  to its end.
\<close>

definition validateTextDocument ::
  "Libraries \<Rightarrow> Resolutions \<Rightarrow> DocSettingPair \<Rightarrow> Action list \<times> ValidationResult Promise" where
  "validateTextDocument lib rs dsp = validateFrom 3 rs dsp (validateBegin lib dsp)"

text \<open>
  \<^verbatim>\<open>shouldValidateDocument\<close> as one function of what \<^verbatim>\<open>isUriExcluded\<close> settles to:
  \<^verbatim>\<open>!!settings.enabled && isLanguageEnabled(textDocument, settings) && !await isUriExcluded(uri)\<close>.
  The theorems about \<^verbatim>\<open>validateTextDocument\<close> are stated with it.
\<close>

definition shouldValidateDocument :: "Resolutions \<Rightarrow> TextDocument \<Rightarrow> CSpellUserSettings \<Rightarrow> error + bool" where
  "shouldValidateDocument rs textDocument settings =
     (if truthy (enabled settings) \<and> isLanguageEnabled textDocument settings
      then (case r_isUriExcluded rs of Inl e \<Rightarrow> Inl e | Inr excluded \<Rightarrow> Inr (\<not> excluded))
      else Inr False)"

subsection \<open>The state of \<^verbatim>\<open>run\<close>\<close>

text \<open>
  A subscription made for a document on \<^verbatim>\<open>validationRequestStream\<close>.  \<open>p_ignore\<close> tells the
  two kinds apart: the one built for a blacklisted URI (\<^verbatim>\<open>filter\<close>, \<^verbatim>\<open>take(1)\<close>, \<^verbatim>\<open>tap\<close>) and
  the validating one.  \<open>p_fetching\<close> holds the documents whose \<^verbatim>\<open>getActiveSettings\<close> promise
  inside the first \<^verbatim>\<open>flatMap\<close> has not settled; \<open>p_debounce\<close> is the value \<^verbatim>\<open>debounce\<close> holds
  while its timer runs, with the timer's delay.
\<close>

record Pipeline =
  p_id :: nat
  p_uri :: string
  p_ignore :: bool
  p_fetching :: "TextDocument list"
  p_debounce :: "(DocSettingPair \<times> int) option"

text \<open>A call of \<^verbatim>\<open>validateTextDocument\<close> that waits, made by the subscription \<open>v_sub\<close>.\<close>

record Validation =
  v_sub :: nat
  v_dsp :: DocSettingPair
  v_point :: AwaitPoint

text \<open>
  The variables of \<^verbatim>\<open>run\<close>.  \<open>validationRequestStream\<close> is the buffer of the
  \<^verbatim>\<open>ReplaySubject(1)\<close>; a \<^verbatim>\<open>Subscription\<close> is known by a number, and \<open>pipelines\<close> are the
  subscriptions of the documents that are still open; \<open>disposed\<close> is set once the shutdown
  handler has disposed of the event handlers, \<^verbatim>\<open>disposableValidate\<close> and the two triggers;
  \<open>disposableValidateClosed\<close> is set when RxJS has closed the subscription
  \<^verbatim>\<open>disposableValidate\<close> because its callback threw.
\<close>

record Server =
  validationRequestStream :: "TextDocument option"
  validationByDoc :: "string \<rightharpoonup> nat"
  blockValidation :: "string \<rightharpoonup> int"
  isValidationBusy :: bool
  disposed :: bool
  disposableValidateClosed :: bool
  pipelines :: "Pipeline list"
  validating :: "Validation list"
  nextSubscription :: nat
  trace :: "Action list"

definition initial :: Server where
  "initial = \<lparr> validationRequestStream = None, validationByDoc = Map.empty,
     blockValidation = Map.empty, isValidationBusy = False, disposed = False,
     disposableValidateClosed = False, pipelines = [], validating = [], nextSubscription = 0,
     trace = [] \<rparr>"

definition act :: "Action list \<Rightarrow> Server \<Rightarrow> Server" where
  "act as s = s\<lparr> trace := trace s @ as \<rparr>"

subsection \<open>The stream and its subscribers\<close>

text \<open>
  A document arrives at the head of a document's subscription.  The \<^verbatim>\<open>filter\<close> on the URI
  lets it pass or not; the blacklisted kind logs and completes (\<^verbatim>\<open>take(1)\<close>), which is
  \<open>None\<close>; the validating kind logs and starts \<^verbatim>\<open>getActiveSettings(doc)\<close>.
\<close>

definition pipelineNext :: "TextDocument \<Rightarrow> Pipeline \<Rightarrow> Pipeline option \<times> Action list" where
  "pipelineNext doc p =
     (if p_uri p \<noteq> doc_uri doc then (Some p, [])
      else if p_ignore p then (None, [Log ''Ignoring:'' (doc_uri doc)])
      else (Some (p\<lparr> p_fetching := p_fetching p @ [doc] \<rparr>), [Log ''Request Validate'' (doc_uri doc)]))"

text \<open>
  The subscriber of \<^verbatim>\<open>disposableValidate\<close> (\<^verbatim>\<open>server.ts\<close>, lines 203 to 230), for a
  document whose URI has no entry in \<^verbatim>\<open>validationByDoc\<close>.  It asks \<^verbatim>\<open>isUriBlackListed\<close>
  which kind of pipeline to build, subscribes the new pipeline to the stream, which
  replays the buffered document to it at once, and stores the subscription under the URI.
\<close>

definition subscribePipeline :: "bool \<Rightarrow> string \<Rightarrow> Server \<Rightarrow> Server" where
  "subscribePipeline ignore uri s =
     (let n = nextSubscription s;
          p = \<lparr> p_id = n, p_uri = uri, p_ignore = ignore,
                p_fetching = [], p_debounce = None \<rparr>;
          (q, as) = (case validationRequestStream s of
                       None \<Rightarrow> (Some p, [])
                     | Some d \<Rightarrow> pipelineNext d p)
      in act as (s\<lparr> pipelines := pipelines s @ (case q of None \<Rightarrow> [] | Some p' \<Rightarrow> [p']),
                    validationByDoc := (validationByDoc s)(uri \<mapsto> n),
                    nextSubscription := n + 1 \<rparr>))"

text \<open>
  When \<^verbatim>\<open>isUriBlackListed\<close> throws, the callback throws before anything is subscribed or
  stored.  RxJS catches what the callback of a subscriber throws and hands it to the host
  as an unhandled error; RxJS 6 closes the subscription before it does so
  (\<^verbatim>\<open>disposableValidate\<close> then receives no further document), RxJS 7 leaves it open.
\<close>

definition disposableValidateNext :: "Libraries \<Rightarrow> string \<Rightarrow> Server \<Rightarrow> Server" where
  "disposableValidateNext lib uri s =
     (case isUriBlackListed lib uri of
        Inl e \<Rightarrow> act [UnhandledError e] (s\<lparr> disposableValidateClosed := (rxjs lib = RxJS6) \<rparr>)
      | Inr ignore \<Rightarrow> subscribePipeline ignore uri s)"

text \<open>The document is handed to the subscriptions whose numbers are in \<open>ids\<close>.\<close>

fun deliver :: "TextDocument \<Rightarrow> nat list \<Rightarrow> Pipeline list \<Rightarrow> Pipeline list \<times> Action list" where
  "deliver doc ids [] = ([], [])"
| "deliver doc ids (p # ps) =
     (let (q, a1) = (if p_id p \<in> set ids then pipelineNext doc p else (Some p, []));
          (qs, a2) = deliver doc ids ps
      in ((case q of None \<Rightarrow> qs | Some p' \<Rightarrow> p' # qs), a1 @ a2))"

text \<open>
  \<^verbatim>\<open>validationRequestStream.next(doc)\<close>: the subject buffers the document and hands it to
  the subscribers it has at that moment, \<^verbatim>\<open>disposableValidate\<close> first (it was subscribed
  first), then the pipelines.  A pipeline subscribed during the call is not among them; it
  has the document from the replay.
\<close>

definition streamNext :: "Libraries \<Rightarrow> TextDocument \<Rightarrow> Server \<Rightarrow> Server" where
  "streamNext lib doc s =
     (let s1 = s\<lparr> validationRequestStream := Some doc \<rparr>;
          ids = map p_id (pipelines s1);
          s2 = (if \<not> disposed s1 \<and> \<not> disposableValidateClosed s1
                   \<and> validationByDoc s1 (doc_uri doc) = None
                then disposableValidateNext lib (doc_uri doc) s1 else s1);
          (ps, as) = deliver doc ids (pipelines s2)
      in act as (s2\<lparr> pipelines := ps \<rparr>))"

subsection \<open>The debounce and the busy gate\<close>

text \<open>
  The package file asks for \<^verbatim>\<open>rxjs ^6.5.2\<close>.  The operator \<^verbatim>\<open>debounce\<close> of RxJS 6 emits the
  value it holds when the duration observable emits or completes (its subscriber calls
  \<^verbatim>\<open>emitValue\<close> from \<^verbatim>\<open>notifyNext\<close> and from \<^verbatim>\<open>notifyComplete\<close>); RxJS 7 changed it to emit
  only when the duration observable emits (a completion no longer ends the duration).
  With the version as a parameter, both readings of the gate can be compared.
\<close>

datatype Notification = Next | Complete

text \<open>\<^verbatim>\<open>timer(delay)\<close> when it elapses: one value, then completion.\<close>

definition timer :: "Notification list" where
  "timer = [Next, Complete]"

text \<open>\<^verbatim>\<open>.pipe(filter(() => !isValidationBusy))\<close>: a filter drops values, never the completion.\<close>

definition filterNotBusy :: "bool \<Rightarrow> Notification list \<Rightarrow> Notification list" where
  "filterNotBusy busy ns = filter (\<lambda>n. n = Complete \<or> \<not> busy) ns"

text \<open>Whether \<^verbatim>\<open>debounce\<close> emits the value it holds, given what its duration observable sends.\<close>

definition debounceEmits :: "RxJS \<Rightarrow> Notification list \<Rightarrow> bool" where
  "debounceEmits rx ns = list_ex (\<lambda>n. n = Next \<or> (n = Complete \<and> rx = RxJS6)) ns"

text \<open>A value reaches \<^verbatim>\<open>debounce\<close>: it replaces the held one and the timer starts anew.\<close>

definition debounceNext :: "DocSettingPair \<Rightarrow> Pipeline \<Rightarrow> Pipeline" where
  "debounceNext dsp p = p\<lparr> p_debounce := Some (dsp, debounceDelay (dsp_settings dsp)) \<rparr>"

subsection \<open>Running a validation\<close>

text \<open>A change of the state of one subscription, and the closing of one.\<close>

definition updatePipeline :: "nat \<Rightarrow> (Pipeline \<Rightarrow> Pipeline) \<Rightarrow> Server \<Rightarrow> Server" where
  "updatePipeline sub f s = s\<lparr> pipelines := map (\<lambda>p. if p_id p = sub then f p else p) (pipelines s) \<rparr>"

definition closePipeline :: "nat \<Rightarrow> Server \<Rightarrow> Server" where
  "closePipeline sub s = s\<lparr> pipelines := filter (\<lambda>p. p_id p \<noteq> sub) (pipelines s) \<rparr>"

text \<open>
  What follows a run of \<^verbatim>\<open>validate\<close> for the call made by subscription \<open>sub\<close>: if it waits,
  the call is kept; if it returned, \<^verbatim>\<open>isValidationBusy = false\<close> runs and the result goes
  through the second \<^verbatim>\<open>flatMap\<close> to \<^verbatim>\<open>connection.sendDiagnostics\<close>, unless the subscription
  has been closed meanwhile.  If it threw, the \<^verbatim>\<open>await\<close> in \<^verbatim>\<open>validateTextDocument\<close> throws:
  \<^verbatim>\<open>isValidationBusy = false\<close> is not reached and the promise of \<^verbatim>\<open>validateTextDocument\<close> is
  rejected, which is an error of the stream; the subscriber has no error handler, so the
  subscription is closed and the error reaches no handler.
\<close>

definition settle :: "nat \<Rightarrow> DocSettingPair \<Rightarrow> Action list \<times> Completion \<Rightarrow> Server \<Rightarrow> Server" where
  "settle sub dsp out s =
     (case out of
        (as, Waits p) \<Rightarrow>
          act as (s\<lparr> validating := validating s @ [\<lparr> v_sub = sub, v_dsp = dsp, v_point = p \<rparr>] \<rparr>)
      | (as, Returned (uri, diagnostics)) \<Rightarrow>
          act (as @ (if list_ex (\<lambda>p. p_id p = sub) (pipelines s)
                     then [SendDiagnostics uri diagnostics] else []))
            (s\<lparr> isValidationBusy := False \<rparr>)
      | (as, Thrown e) \<Rightarrow>
          (if list_ex (\<lambda>p. p_id p = sub) (pipelines s)
           then act (as @ [UnhandledError e]) (closePipeline sub s)
           else act as s))"

text \<open>The server's \<^verbatim>\<open>validateTextDocument(dsp)\<close>, called by the second \<^verbatim>\<open>flatMap\<close>.\<close>

definition startValidation :: "Libraries \<Rightarrow> nat \<Rightarrow> DocSettingPair \<Rightarrow> Server \<Rightarrow> Server" where
  "startValidation lib sub dsp s =
     settle sub dsp (validateBegin lib dsp)
       (act [ValidateTextDocument (doc_uri (dsp_doc dsp))] (s\<lparr> isValidationBusy := True \<rparr>))"

text \<open>
  What \<^verbatim>\<open>debounce\<close> emits goes on: the \<^verbatim>\<open>tap\<close> logs, the \<^verbatim>\<open>filter\<close> on \<^verbatim>\<open>blockValidation\<close>
  drops the value of a document that is being saved, and \<^verbatim>\<open>flatMap\<close> calls
  \<^verbatim>\<open>validateTextDocument\<close>.
\<close>

definition afterDebounce :: "Libraries \<Rightarrow> nat \<Rightarrow> DocSettingPair \<Rightarrow> Server \<Rightarrow> Server" where
  "afterDebounce lib sub dsp s =
     (let uri = doc_uri (dsp_doc dsp);
          s1 = act [Log (if blockValidation s uri \<noteq> None then ''blocked? true'' else ''blocked? false'') uri] s
      in if blockValidation s1 uri \<noteq> None then s1 else startValidation lib sub dsp s1)"

text \<open>The timer of a pipeline's \<^verbatim>\<open>debounce\<close> elapses.\<close>

definition timerFires :: "Libraries \<Rightarrow> nat \<Rightarrow> Server \<Rightarrow> Server" where
  "timerFires lib sub s =
     (case find (\<lambda>p. p_id p = sub) (pipelines s) of
        None \<Rightarrow> s
      | Some p \<Rightarrow>
          (case p_debounce p of
             None \<Rightarrow> s
           | Some (dsp, delay) \<Rightarrow>
               (let s1 = updatePipeline sub (\<lambda>p. p\<lparr> p_debounce := None \<rparr>) s
                in if debounceEmits (rxjs lib) (filterNotBusy (isValidationBusy s) timer)
                   then afterDebounce lib sub dsp s1 else s1)))"

text \<open>
  The promise of \<^verbatim>\<open>getActiveSettings(doc)\<close> settles for the \<open>i\<close>-th waiting document of a
  pipeline.  A value goes on to \<^verbatim>\<open>debounce\<close>; a rejection is an error of the stream, which
  closes the subscription (the subscriber has no error handler).
\<close>

definition settingsResolved :: "nat \<Rightarrow> nat \<Rightarrow> error + CSpellUserSettings \<Rightarrow> Server \<Rightarrow> Server" where
  "settingsResolved sub i res s =
     (case find (\<lambda>p. p_id p = sub) (pipelines s) of
        None \<Rightarrow> s
      | Some p \<Rightarrow>
          if i < length (p_fetching p) then
            (let doc = p_fetching p ! i;
                 rest = take i (p_fetching p) @ drop (Suc i) (p_fetching p)
             in (case res of
                   Inl e \<Rightarrow> act [UnhandledError e] (closePipeline sub s)
                 | Inr settings \<Rightarrow>
                     updatePipeline sub
                       (\<lambda>p. debounceNext \<lparr> dsp_doc = doc, dsp_settings = settings \<rparr> (p\<lparr> p_fetching := rest \<rparr>)) s))
          else s)"

text \<open>The wait of the \<open>i\<close>-th running call of \<^verbatim>\<open>validateTextDocument\<close> settles.\<close>

definition resolved :: "nat \<Rightarrow> Resolution \<Rightarrow> Server \<Rightarrow> Server" where
  "resolved i res s =
     (if i < length (validating s) then
        (let v = validating s ! i
         in (case validateResume (v_dsp v) (v_point v) res of
               None \<Rightarrow> s
             | Some out \<Rightarrow>
                 settle (v_sub v) (v_dsp v) out
                   (s\<lparr> validating := take i (validating s) @ drop (Suc i) (validating s) \<rparr>)))
      else s)"

subsection \<open>The events\<close>

text \<open>
  What can happen to the server: the four document events (\<^verbatim>\<open>server.ts\<close>, lines 311 to
  344), the trigger that validates
  all open documents, the shutdown, and the three ways in which something it waits for
  comes back.  Real time is left out: the timers may elapse in any order.
\<close>

datatype Event =
  DidChangeContent TextDocument
  | WillSave TextDocument
  | DidSave TextDocument
  | DidClose TextDocument
  | ValidateAll "TextDocument list"
  | Shutdown
  | SettingsResolved nat nat "error + CSpellUserSettings"
  | TimerFires nat
  | AwaitResolved nat Resolution

definition onWillSave :: "TextDocument \<Rightarrow> Server \<Rightarrow> Server" where
  "onWillSave doc s =
     (act [Log ''onWillSave'' (doc_uri doc)] s)
       \<lparr> blockValidation := (blockValidation s)(doc_uri doc \<mapsto> doc_version doc) \<rparr>"

definition onDidSave :: "Libraries \<Rightarrow> TextDocument \<Rightarrow> Server \<Rightarrow> Server" where
  "onDidSave lib doc s =
     streamNext lib doc
       ((act [Log ''onDidSave'' (doc_uri doc)] s)
          \<lparr> blockValidation := (blockValidation s)(doc_uri doc := None) \<rparr>)"

definition onDidClose :: "TextDocument \<Rightarrow> Server \<Rightarrow> Server" where
  "onDidClose doc s =
     (let uri = doc_uri doc;
          s1 = (case validationByDoc s uri of
                  None \<Rightarrow> s
                | Some sub \<Rightarrow> closePipeline sub (s\<lparr> validationByDoc := (validationByDoc s)(uri := None) \<rparr>))
      in act [SendDiagnostics uri []] s1)"

definition onShutdown :: "Server \<Rightarrow> Server" where
  "onShutdown s = s\<lparr> disposed := True, validationByDoc := Map.empty, pipelines := [] \<rparr>"

definition validateAll :: "Libraries \<Rightarrow> TextDocument list \<Rightarrow> Server \<Rightarrow> Server" where
  "validateAll lib docs s = fold (streamNext lib) docs (act [Log ''Validate all documents'' []] s)"

fun step :: "Libraries \<Rightarrow> Server \<Rightarrow> Event \<Rightarrow> Server" where
  "step lib s (DidChangeContent doc) = (if disposed s then s else streamNext lib doc s)"
| "step lib s (WillSave doc) = (if disposed s then s else onWillSave doc s)"
| "step lib s (DidSave doc) = (if disposed s then s else onDidSave lib doc s)"
| "step lib s (DidClose doc) = (if disposed s then s else onDidClose doc s)"
| "step lib s (ValidateAll docs) = (if disposed s then s else validateAll lib docs s)"
| "step lib s Shutdown = onShutdown s"
| "step lib s (SettingsResolved sub i res) = settingsResolved sub i res s"
| "step lib s (TimerFires sub) = timerFires lib sub s"
| "step lib s (AwaitResolved i res) = resolved i res s"

definition run :: "Libraries \<Rightarrow> Server \<Rightarrow> Event list \<Rightarrow> Server" where
  "run lib s es = foldl (step lib) s es"

subsection \<open>Predicates on traces and states used by the proofs\<close>

text \<open>A report: a line of the log, or an error that is handed to the host.\<close>

definition isReport :: "Action \<Rightarrow> bool" where
  "isReport a = (case a of Log m u \<Rightarrow> True | LogError m \<Rightarrow> True | UnhandledError e \<Rightarrow> True
                 | _ \<Rightarrow> False)"

text \<open>The trace of \<open>s'\<close> is the trace of \<open>s\<close> followed by actions that all satisfy \<open>P\<close>.\<close>

definition extends :: "(Action \<Rightarrow> bool) \<Rightarrow> Server \<Rightarrow> Server \<Rightarrow> bool" where
  "extends P s s' = (take (length (trace s)) (trace s') = trace s
                     \<and> list_all P (drop (length (trace s)) (trace s')))"

text \<open>
  An action that concerns a validation (its start, the call of the analyzer, the analyzer's
  return) is about a URI of the set \<open>U\<close>; every other action passes.
\<close>

definition about :: "string set \<Rightarrow> Action \<Rightarrow> bool" where
  "about U a = (case a of ValidateTextDocument u \<Rightarrow> u \<in> U | ValidatorCall u \<Rightarrow> u \<in> U
                | ValidatorDone u \<Rightarrow> u \<in> U | _ \<Rightarrow> True)"

text \<open>Not a call of the server's \<^verbatim>\<open>validateTextDocument\<close>.\<close>

definition noStart :: "Action \<Rightarrow> bool" where
  "noStart a = (case a of ValidateTextDocument u \<Rightarrow> False | _ \<Rightarrow> True)"

text \<open>
  What \<open>deliver\<close> does to one pipeline: a blacklisted pipeline that receives its document
  completes and is dropped; a validating pipeline that receives its document has it added
  to the documents it fetches settings for.
\<close>

definition keeps :: "TextDocument \<Rightarrow> nat list \<Rightarrow> Pipeline \<Rightarrow> bool" where
  "keeps doc ids p = (\<not> (p_id p \<in> set ids \<and> p_uri p = doc_uri doc \<and> p_ignore p))"

definition received :: "TextDocument \<Rightarrow> nat list \<Rightarrow> Pipeline \<Rightarrow> Pipeline" where
  "received doc ids p = (if p_id p \<in> set ids \<and> p_uri p = doc_uri doc
                         then p\<lparr> p_fetching := p_fetching p @ [doc] \<rparr> else p)"

text \<open>
  The URIs of the values held by some \<^verbatim>\<open>debounce\<close> whose document is not being saved, and
  the URIs of the running validations.
\<close>

definition debounced :: "Server \<Rightarrow> string set" where
  "debounced s = {u. \<exists>p \<in> set (pipelines s). \<exists>dsp delay. p_debounce p = Some (dsp, delay)
                       \<and> u = doc_uri (dsp_doc dsp) \<and> blockValidation s u = None}"

definition validatingUris :: "Server \<Rightarrow> string set" where
  "validatingUris s = (\<lambda>v. doc_uri (dsp_doc (v_dsp v))) ` set (validating s)"

text \<open>The event is the did-save of the document with URI \<open>u\<close>.\<close>

definition isDidSaveOf :: "string \<Rightarrow> Event \<Rightarrow> bool" where
  "isDidSaveOf u e = (case e of DidSave d \<Rightarrow> doc_uri d = u | _ \<Rightarrow> False)"

text \<open>
  The tracking map and the open subscriptions agree: the subscriptions have different
  numbers, all below the next number to be given, and each is the entry of its URI in
  \<^verbatim>\<open>validationByDoc\<close>.
\<close>

definition tracked :: "Server \<Rightarrow> bool" where
  "tracked s = (distinct (map p_id (pipelines s))
     \<and> list_all (\<lambda>p. validationByDoc s (p_uri p) = Some (p_id p) \<and> p_id p < nextSubscription s) (pipelines s))"

text \<open>\<^verbatim>\<open>JSON.stringify\<close> renders the thrown value.\<close>

definition serialisable :: "error \<Rightarrow> bool" where
  "serialisable e = (case stringify e of Inl e' \<Rightarrow> False | Inr text \<Rightarrow> True)"

text \<open>\<^verbatim>\<open>isUriBlackListed\<close> returns \<^verbatim>\<open>true\<close> for the URI.\<close>

definition blackListed :: "Libraries \<Rightarrow> string \<Rightarrow> bool" where
  "blackListed lib u = (isUriBlackListed lib u = Inr True)"

text \<open>
  A pipeline is of the blacklisted kind exactly when its URI is blacklisted, and no document
  with a blacklisted URI waits in it; no such document is being validated.
\<close>

definition pipelineSafe :: "Libraries \<Rightarrow> Pipeline \<Rightarrow> bool" where
  "pipelineSafe lib p = (p_ignore p = blackListed lib (p_uri p)
     \<and> list_all (\<lambda>d. \<not> blackListed lib (doc_uri d)) (p_fetching p)
     \<and> (case p_debounce p of None \<Rightarrow> True
         | Some (dsp, delay) \<Rightarrow> \<not> blackListed lib (doc_uri (dsp_doc dsp))))"

definition blacklistSafe :: "Libraries \<Rightarrow> Server \<Rightarrow> bool" where
  "blacklistSafe lib s = (list_all (pipelineSafe lib) (pipelines s)
     \<and> list_all (\<lambda>v. \<not> blackListed lib (doc_uri (dsp_doc (v_dsp v)))) (validating s))"

text \<open>
  At most one validation runs, and the busy flag is set while one does.
\<close>

definition gate :: "Server \<Rightarrow> bool" where
  "gate s = (length (validating s) \<le> 1 \<and> (validating s \<noteq> [] \<longrightarrow> isValidationBusy s))"

text \<open>The URIs of the documents whose analyzer call has started and not returned.\<close>

definition inFlight :: "Server \<Rightarrow> string list" where
  "inFlight s = map (\<lambda>v. doc_uri (dsp_doc (v_dsp v))) (filter (\<lambda>v. v_point v = AwaitValidator) (validating s))"

section \<open>Concrete documents and settings used in the examples\<close>

text \<open>
  The libraries of the examples: \<^verbatim>\<open>Uri.parse\<close> is known on the three URIs that the examples
  use, which every version of the library reads alike, and refuses every other string.
\<close>

definition exampleUriScheme :: "string \<Rightarrow> error + string" where
  "exampleUriScheme u =
     (if u = ''file:///a.txt'' \<or> u = ''file:///b.txt'' then Inr ''file''
      else if u = ''git:/a.txt'' then Inr ''git''
      else Inl (Error ''[UriError]''))"

definition exampleLibraries :: "RxJS \<Rightarrow> Libraries" where
  "exampleLibraries rx = \<lparr> rxjs = rx, uriScheme = exampleUriScheme \<rparr>"

definition docA :: TextDocument where
  "docA = \<lparr> doc_uri = ''file:///a.txt'', doc_languageId = ''plaintext'', doc_version = 1 \<rparr>"

definition docB :: TextDocument where
  "docB = \<lparr> doc_uri = ''file:///b.txt'', doc_languageId = ''plaintext'', doc_version = 1 \<rparr>"

definition docGit :: TextDocument where
  "docGit = \<lparr> doc_uri = ''git:/a.txt'', doc_languageId = ''plaintext'', doc_version = 1 \<rparr>"

definition settingsOn :: CSpellUserSettings where
  "settingsOn = emptySettings\<lparr> enabled := Some True, enabledLanguageIds := Some [''plaintext''] \<rparr>"

definition settingsZeroDelay :: CSpellUserSettings where
  "settingsZeroDelay = settingsOn\<lparr> spellCheckDelayMs := Some 0 \<rparr>"

text \<open>
  Two documents change; their settings resolve; the timer of the first elapses and its
  validation proceeds to the analyzer; while the analyzer runs, the timer of the second
  elapses and the waits of its validation settle.
\<close>

definition overlapEvents :: "Event list" where
  "overlapEvents =
     [DidChangeContent docA, DidChangeContent docB,
      SettingsResolved 0 0 (Inr settingsOn), SettingsResolved 1 0 (Inr settingsOn),
      TimerFires 0,
      AwaitResolved 0 (IsUriExcluded (Inr False)), AwaitResolved 0 (SettingsToUse (Inr settingsOn)),
      TimerFires 1,
      AwaitResolved 1 (IsUriExcluded (Inr False)), AwaitResolved 1 (SettingsToUse (Inr settingsOn))]"

text \<open>
  A document changes, its settings resolve and its timer elapses, so its validation starts
  and waits for \<^verbatim>\<open>isUriExcluded\<close>.  Then (\<open>duringSave\<close>, after the will-save) the document
  changes again, the new request reaches the filter on \<^verbatim>\<open>blockValidation\<close>, and the two
  waits of the validation that was already running settle.
\<close>

definition beforeSave :: "Event list" where
  "beforeSave = [DidChangeContent docA, SettingsResolved 0 0 (Inr settingsOn), TimerFires 0]"

definition duringSave :: "Event list" where
  "duringSave = [DidChangeContent docA, SettingsResolved 0 0 (Inr settingsOn), TimerFires 0,
     AwaitResolved 0 (IsUriExcluded (Inr False)), AwaitResolved 0 (SettingsToUse (Inr settingsOn))]"

text \<open>Events on a document of the scheme \<^verbatim>\<open>git\<close>, and a burst of changes of two documents.\<close>

definition gitEvents :: "Event list" where
  "gitEvents = [DidChangeContent docGit, DidChangeContent docGit, TimerFires 0,
     SettingsResolved 0 0 (Inr settingsOn), DidChangeContent docGit, DidSave docGit, TimerFires 0]"

definition rapidEvents :: "Event list" where
  "rapidEvents = [DidChangeContent docA, DidChangeContent docA, DidChangeContent docA,
     DidChangeContent docB, DidChangeContent docA]"

text \<open>
  Resolutions in which the analyzer rejects: with a value that \<^verbatim>\<open>JSON.stringify\<close> renders,
  and with one that it does not.  \<open>cyclicEvents\<close> is the run of the server in which the
  second happens to the validation of a document.
\<close>

definition analyzerFails :: Resolutions where
  "analyzerFails = \<lparr> r_isUriExcluded = Inr False, r_settingsToUse = Inr settingsOn,
     r_validator = Inl (Error ''boom'') \<rparr>"

definition analyzerFailsCyclic :: Resolutions where
  "analyzerFailsCyclic = \<lparr> r_isUriExcluded = Inr False, r_settingsToUse = Inr settingsOn,
     r_validator = Inl Cyclic \<rparr>"

definition cyclicEvents :: "Event list" where
  "cyclicEvents =
     [DidChangeContent docA, SettingsResolved 0 0 (Inr settingsOn), TimerFires 0,
      AwaitResolved 0 (IsUriExcluded (Inr False)), AwaitResolved 0 (SettingsToUse (Inr settingsOn)),
      AwaitResolved 0 (ValidatorResult (Inl Cyclic))]"

text \<open>
  The worlds of the examples.  They share the functions of the libraries: the file-system
  path of a \<^verbatim>\<open>file\<close> URI is what follows \<^verbatim>\<open>file://\<close>, paths are joined with a slash, the
  configuration file is called \<^verbatim>\<open>cSpell.json\<close>, and the one glob that is understood,
  \<^verbatim>\<open>**/*.md\<close>, matches the file names that end in \<^verbatim>\<open>.md\<close>.
\<close>

definition joinPaths :: "string list \<Rightarrow> string" where
  "joinPaths parts = foldr (\<lambda>a b. if b = [] then a else a @ ''/'' @ b) parts []"

definition envBase :: Env where
  "envBase = \<lparr> getWorkspaceFolders = Some [\<lparr> folder_uri = ''file:///w'', folder_name = ''w'' \<rparr>],
     getConfiguration = (\<lambda>scope. (None, [])),
     existsSync = (\<lambda>path. False),
     cspellReadSettingsFiles = (\<lambda>paths. emptySettings),
     defaultSettingsFilename = ''cSpell.json'',
     checkFilenameMatchesGlob = (\<lambda>filename glob. glob = ''**/*.md'' \<and> suffix ''.md'' filename),
     pathJoin = joinPaths,
     uriFsPath = drop 7, uriPath = drop 7, uriRoot = (\<lambda>uri. ''file://''),
     globMatch = (\<lambda>globs root filename. False) \<rparr>"

text \<open>
  In \<open>envOne\<close> the editor sets \<^verbatim>\<open>checkLimit\<close> to 500 and the configuration file of the
  folder, \<^verbatim>\<open>/w/cspell.json\<close>, sets it to 1000; \<open>envTwo\<close> is \<open>envOne\<close> after the file has been
  edited to say 2000.
\<close>

definition envOne :: Env where
  "envOne = envBase\<lparr>
     getConfiguration := (\<lambda>scope. (Some (emptySettings\<lparr> checkLimit := Some 500 \<rparr>), [])),
     existsSync := (\<lambda>path. path = ''/w/cspell.json''),
     cspellReadSettingsFiles :=
       (\<lambda>paths. if paths = [''/w/cspell.json''] then emptySettings\<lparr> checkLimit := Some 1000 \<rparr>
                 else emptySettings) \<rparr>"

definition envTwo :: Env where
  "envTwo = envOne\<lparr>
     cspellReadSettingsFiles :=
       (\<lambda>paths. if paths = [''/w/cspell.json''] then emptySettings\<lparr> checkLimit := Some 2000 \<rparr>
                 else emptySettings) \<rparr>"






text \<open>An object that has resolved the settings of one document in \<open>envOne\<close>.\<close>

definition dsStale :: DocumentSettings where
  "dsStale = calls (newDocumentSettings emptySettings) [CallGetUriSettings envOne ''file:///w/a.txt'']"


section \<open>Facts about the helpers\<close>

lemma findIndex_nonneg: "(findIndex P xs \<ge> 0) = (\<exists>x \<in> set xs. P x)"
  by (induction xs) (auto simp: Let_def)

lemma slice_prefix: "(u = take (length u) d) = prefix u d"
proof
  assume "u = take (length u) d"
  then have "prefix u d = prefix (take (length u) d) d" by simp
  then show "prefix u d" by (simp add: take_is_prefix)
next
  assume "prefix u d"
  then show "u = take (length u) d" by (auto simp: prefix_def)
qed

lemma matchingFolders_set:
  "set (matchingFolders fs d) = {f \<in> set fs. prefix (folder_uri f) d}"
  by (simp add: matchingFolders_def slice_prefix)

lemma matchingFolders_sorted:
  "sorted (rev (map (\<lambda>f. length (folder_uri f)) (matchingFolders fs d)))"
  by (simp add: matchingFolders_def rev_map)

lemmas example_defs = docA_def docB_def docGit_def settingsOn_def settingsZeroDelay_def

section \<open>The debounce delay\<close>

text \<open>
  C9.  The delay of the debounce timer is computed from the settings that were resolved
  for the event, as \<^verbatim>\<open>spellCheckDelayMs || 50\<close>: an absent delay and a delay of 0 both give
  50 ms, every other delay is used as it is.  In the run below the settings ask for 0 ms
  and the timer that is armed has 50 ms.
\<close>

theorem C9_zero_delay_is_default:
  "debounceDelay settings =
     (case spellCheckDelayMs settings of None \<Rightarrow> 50 | Some d \<Rightarrow> if d = 0 then 50 else d)
   \<and> p_debounce (debounceNext \<lparr> dsp_doc = doc, dsp_settings = settings \<rparr> p)
       = Some (\<lparr> dsp_doc = doc, dsp_settings = settings \<rparr>, debounceDelay settings)
   \<and> map p_debounce (pipelines (run (exampleLibraries rx) initial
         [DidChangeContent docA, SettingsResolved 0 0 (Inr settingsZeroDelay)]))
       = [Some (\<lparr> dsp_doc = docA, dsp_settings = settingsZeroDelay \<rparr>, 50)]"
proof (intro conjI)
  show "debounceDelay settings =
     (case spellCheckDelayMs settings of None \<Rightarrow> 50 | Some d \<Rightarrow> if d = 0 then 50 else d)"
    by (simp add: debounceDelay_def numberOr_def defaultDebounce_def)
  show "p_debounce (debounceNext \<lparr> dsp_doc = doc, dsp_settings = settings \<rparr> p)
       = Some (\<lparr> dsp_doc = doc, dsp_settings = settings \<rparr>, debounceDelay settings)"
    by (simp add: debounceNext_def)
  show "map p_debounce (pipelines (run (exampleLibraries rx) initial
         [DidChangeContent docA, SettingsResolved 0 0 (Inr settingsZeroDelay)]))
       = [Some (\<lparr> dsp_doc = docA, dsp_settings = settingsZeroDelay \<rparr>, 50)]"
    by code_simp
qed

theorem C9_witness:
  "debounceDelay settingsZeroDelay = 50 \<and> debounceDelay (settingsOn\<lparr> spellCheckDelayMs := Some 200 \<rparr>) = 200
   \<and> debounceDelay settingsOn = 50"
  using C9_zero_delay_is_default [of settingsZeroDelay docA undefined RxJS6]
    C9_zero_delay_is_default [of "settingsOn\<lparr> spellCheckDelayMs := Some 200 \<rparr>" docA undefined RxJS6]
    C9_zero_delay_is_default [of settingsOn docA undefined RxJS6]
  by (simp add: example_defs emptySettings_def)

section \<open>Matching workspace folders\<close>

text \<open>
  C10.  \<^verbatim>\<open>matchingFoldersForUri\<close> compares strings: the folders it returns are exactly those
  whose URI is a prefix, character by character, of the document's URI, and it returns
  them with the longest URI first.  The folder \<^verbatim>\<open>file:///proj\<close> therefore matches the
  document \<^verbatim>\<open>file:///project2/a.ts\<close>, which is not inside it.
\<close>

theorem C10_matching_is_string_prefix:
  "set (matchingFolders fs d) = {f \<in> set fs. prefix (folder_uri f) d}
   \<and> sorted (rev (map (\<lambda>f. length (folder_uri f)) (matchingFolders fs d)))
   \<and> fst (matchingFoldersForUri env d ds) = matchingFolders (fst (folders env ds)) d
   \<and> matchingFolders [\<lparr>folder_uri = ''file:///proj'', folder_name = ''proj''\<rparr>] ''file:///project2/a.ts''
       = [\<lparr>folder_uri = ''file:///proj'', folder_name = ''proj''\<rparr>]"
proof (intro conjI)
  show "set (matchingFolders fs d) = {f \<in> set fs. prefix (folder_uri f) d}"
    by (rule matchingFolders_set)
  show "sorted (rev (map (\<lambda>f. length (folder_uri f)) (matchingFolders fs d)))"
    by (rule matchingFolders_sorted)
  show "fst (matchingFoldersForUri env d ds) = matchingFolders (fst (folders env ds)) d"
    by (simp add: matchingFoldersForUri_def split_def Let_def)
  show "matchingFolders [\<lparr>folder_uri = ''file:///proj'', folder_name = ''proj''\<rparr>] ''file:///project2/a.ts''
       = [\<lparr>folder_uri = ''file:///proj'', folder_name = ''proj''\<rparr>]"
    by (simp add: matchingFolders_def)
qed

theorem C10_witness:
  "map folder_uri (matchingFolders
      [\<lparr>folder_uri = ''file:///proj'', folder_name = ''a''\<rparr>,
       \<lparr>folder_uri = ''file:///project2'', folder_name = ''b''\<rparr>,
       \<lparr>folder_uri = ''file:///other'', folder_name = ''c''\<rparr>] ''file:///project2/a.ts'')
     = [''file:///project2'', ''file:///proj'']
   \<and> sorted (rev (map (\<lambda>f. length (folder_uri f)) (matchingFolders
      [\<lparr>folder_uri = ''file:///proj'', folder_name = ''a''\<rparr>,
       \<lparr>folder_uri = ''file:///project2'', folder_name = ''b''\<rparr>,
       \<lparr>folder_uri = ''file:///other'', folder_name = ''c''\<rparr>] ''file:///project2/a.ts'')))"
  using C10_matching_is_string_prefix [of
      "[\<lparr>folder_uri = ''file:///proj'', folder_name = ''a''\<rparr>,
       \<lparr>folder_uri = ''file:///project2'', folder_name = ''b''\<rparr>,
       \<lparr>folder_uri = ''file:///other'', folder_name = ''c''\<rparr>]" "''file:///project2/a.ts''"]
  by (simp add: matchingFolders_def)

section \<open>Facts about the caches of DocumentSettings\<close>

lemma log_frame [simp]:
  "cachedValues (log m us ds) = cachedValues ds"
  "c_getUriSettings (log m us ds) = c_getUriSettings ds"
  "c_fetchSettingsForUri (log m us ds) = c_fetchSettingsForUri ds"
  "c_cspellFileSettingsByFolder (log m us ds) = c_cspellFileSettingsByFolder ds"
  "c_fetchVSCodeConfiguration (log m us ds) = c_fetchVSCodeConfiguration ds"
  "c_folders (log m us ds) = c_folders ds"
  "c_importedSettings (log m us ds) = c_importedSettings ds"
  "configsToImport (log m us ds) = configsToImport ds"
  "version (log m us ds) = version ds"
  "defaultSettings (log m us ds) = defaultSettings ds"
  "dlog (log m us ds) = dlog ds @ [(m, us)]"
  by (simp_all add: log_def)

lemma folders_fst: "fst (folders env ds) =
    (case c_folders ds of Some fs \<Rightarrow> fs | None \<Rightarrow> (case getWorkspaceFolders env of None \<Rightarrow> [] | Some l \<Rightarrow> l))"
  by (simp add: folders_def Let_def split: option.splits)

lemma folders_frame [simp]:
  "cachedValues (snd (folders env ds)) = cachedValues ds"
  "c_getUriSettings (snd (folders env ds)) = c_getUriSettings ds"
  "c_fetchSettingsForUri (snd (folders env ds)) = c_fetchSettingsForUri ds"
  "c_cspellFileSettingsByFolder (snd (folders env ds)) = c_cspellFileSettingsByFolder ds"
  "c_fetchVSCodeConfiguration (snd (folders env ds)) = c_fetchVSCodeConfiguration ds"
  "c_folders (snd (folders env ds)) = Some (fst (folders env ds))"
  "c_importedSettings (snd (folders env ds)) = c_importedSettings ds"
  "configsToImport (snd (folders env ds)) = configsToImport ds"
  "version (snd (folders env ds)) = version ds"
  "defaultSettings (snd (folders env ds)) = defaultSettings ds"
  by (simp_all add: folders_def Let_def split: option.splits)

lemma importedSettings_fst: "fst (importedSettings env ds) =
    (case c_importedSettings ds of Some v \<Rightarrow> v | None \<Rightarrow> cspellReadSettingsFiles env (sort (configsToImport ds)))"
  by (simp add: importedSettings_def Let_def split: option.splits)

lemma importedSettings_frame [simp]:
  "cachedValues (snd (importedSettings env ds)) = cachedValues ds"
  "c_getUriSettings (snd (importedSettings env ds)) = c_getUriSettings ds"
  "c_fetchSettingsForUri (snd (importedSettings env ds)) = c_fetchSettingsForUri ds"
  "c_cspellFileSettingsByFolder (snd (importedSettings env ds)) = c_cspellFileSettingsByFolder ds"
  "c_fetchVSCodeConfiguration (snd (importedSettings env ds)) = c_fetchVSCodeConfiguration ds"
  "c_folders (snd (importedSettings env ds)) = c_folders ds"
  "c_importedSettings (snd (importedSettings env ds)) = Some (fst (importedSettings env ds))"
  "configsToImport (snd (importedSettings env ds)) = configsToImport ds"
  "version (snd (importedSettings env ds)) = version ds"
  "defaultSettings (snd (importedSettings env ds)) = defaultSettings ds"
  by (simp_all add: importedSettings_def Let_def split: option.splits)

lemma fetchVSCodeConfiguration_fst: "fst (fetchVSCodeConfiguration env k ds) =
    (case c_fetchVSCodeConfiguration ds k of Some v \<Rightarrow> v
     | None \<Rightarrow> ((case fst (getConfiguration env (if k = [] then None else Some k)) of None \<Rightarrow> emptySettings | Some c \<Rightarrow> c),
                snd (getConfiguration env (if k = [] then None else Some k))))"
  by (simp add: fetchVSCodeConfiguration_def Let_def split_def split: option.splits)

lemma fetchVSCodeConfiguration_frame [simp]:
  "cachedValues (snd (fetchVSCodeConfiguration env k ds)) = cachedValues ds"
  "c_getUriSettings (snd (fetchVSCodeConfiguration env k ds)) = c_getUriSettings ds"
  "c_fetchSettingsForUri (snd (fetchVSCodeConfiguration env k ds)) = c_fetchSettingsForUri ds"
  "c_cspellFileSettingsByFolder (snd (fetchVSCodeConfiguration env k ds)) = c_cspellFileSettingsByFolder ds"
  "c_folders (snd (fetchVSCodeConfiguration env k ds)) = c_folders ds"
  "c_importedSettings (snd (fetchVSCodeConfiguration env k ds)) = c_importedSettings ds"
  "configsToImport (snd (fetchVSCodeConfiguration env k ds)) = configsToImport ds"
  "version (snd (fetchVSCodeConfiguration env k ds)) = version ds"
  "defaultSettings (snd (fetchVSCodeConfiguration env k ds)) = defaultSettings ds"
  "dlog (snd (fetchVSCodeConfiguration env k ds)) = dlog ds"
  by (simp_all add: fetchVSCodeConfiguration_def Let_def split_def split: option.splits)

lemma fetchSettingsFromVSCode_snd [simp]:
  "snd (fetchSettingsFromVSCode env uri ds) = snd (fetchVSCodeConfiguration env uri ds)"
  by (simp add: fetchSettingsFromVSCode_def split_def Let_def)

lemma readSettingsForFolderUri_fst:
  "fst (readSettingsForFolderUri env k ds) = spec_fileSettings env k"
  by (simp add: readSettingsForFolderUri_def readSettingsFiles_def spec_fileSettings_def Let_def)

lemma readSettingsForFolderUri_snd:
  "snd (readSettingsForFolderUri env k ds) =
     (if k = [] then ds else log ''readSettingsFiles:'' (configPathsForRoot env k) ds)"
  by (simp add: readSettingsForFolderUri_def readSettingsFiles_def Let_def)

lemma cspellFile_fst: "fst (cspellFileSettingsByFolderCache env k ds) =
    (case c_cspellFileSettingsByFolder ds k of Some v \<Rightarrow> v | None \<Rightarrow> spec_fileSettings env k)"
  by (simp add: cspellFileSettingsByFolderCache_def Let_def split_def readSettingsForFolderUri_fst
        split: option.splits)

lemma cspellFile_frame [simp]:
  "cachedValues (snd (cspellFileSettingsByFolderCache env k ds)) = cachedValues ds"
  "c_getUriSettings (snd (cspellFileSettingsByFolderCache env k ds)) = c_getUriSettings ds"
  "c_fetchSettingsForUri (snd (cspellFileSettingsByFolderCache env k ds)) = c_fetchSettingsForUri ds"
  "c_fetchVSCodeConfiguration (snd (cspellFileSettingsByFolderCache env k ds)) = c_fetchVSCodeConfiguration ds"
  "c_folders (snd (cspellFileSettingsByFolderCache env k ds)) = c_folders ds"
  "c_importedSettings (snd (cspellFileSettingsByFolderCache env k ds)) = c_importedSettings ds"
  "configsToImport (snd (cspellFileSettingsByFolderCache env k ds)) = configsToImport ds"
  "version (snd (cspellFileSettingsByFolderCache env k ds)) = version ds"
  "defaultSettings (snd (cspellFileSettingsByFolderCache env k ds)) = defaultSettings ds"
  by (simp_all add: cspellFileSettingsByFolderCache_def Let_def split_def readSettingsForFolderUri_snd
        split: option.splits)

lemma cspellFile_dlog:
  "dlog (snd (cspellFileSettingsByFolderCache env k ds)) =
     dlog ds @ (if c_cspellFileSettingsByFolder ds k = None \<and> k \<noteq> []
                then [(''readSettingsFiles:'', configPathsForRoot env k)] else [])"
  by (simp add: cspellFileSettingsByFolderCache_def Let_def split_def readSettingsForFolderUri_snd
        split: option.splits)

lemma fetchSettingsForFolderUri_frame [simp]:
  "cachedValues (snd (fetchSettingsForFolderUri env k ds)) = cachedValues ds"
  "c_getUriSettings (snd (fetchSettingsForFolderUri env k ds)) = c_getUriSettings ds"
  "c_fetchSettingsForUri (snd (fetchSettingsForFolderUri env k ds)) = c_fetchSettingsForUri ds"
  "c_folders (snd (fetchSettingsForFolderUri env k ds)) = c_folders ds"
  "c_importedSettings (snd (fetchSettingsForFolderUri env k ds)) = c_importedSettings ds"
  "configsToImport (snd (fetchSettingsForFolderUri env k ds)) = configsToImport ds"
  "version (snd (fetchSettingsForFolderUri env k ds)) = version ds"
  "defaultSettings (snd (fetchSettingsForFolderUri env k ds)) = defaultSettings ds"
  by (simp_all add: fetchSettingsForFolderUri_def Let_def split_def)

lemma folders_frame2 [simp]: "dlog (snd (folders env ds)) = dlog ds"
  by (simp add: folders_def Let_def split: option.splits)

lemma fetchSettingsForUri_frame [simp]:
  "cachedValues (snd (fetchSettingsForUri env k ds)) = cachedValues ds"
  "c_getUriSettings (snd (fetchSettingsForUri env k ds)) = c_getUriSettings ds"
  "c_folders (snd (fetchSettingsForUri env k ds)) = c_folders ds"
  "c_importedSettings (snd (fetchSettingsForUri env k ds)) = c_importedSettings ds"
  "configsToImport (snd (fetchSettingsForUri env k ds)) = configsToImport ds"
  "version (snd (fetchSettingsForUri env k ds)) = version ds"
  "defaultSettings (snd (fetchSettingsForUri env k ds)) = defaultSettings ds"
  by (simp_all add: fetchSettingsForUri_def Let_def split_def split: option.splits)

lemma fetchSettingsFromVSCode_fst:
  "c_fetchVSCodeConfiguration ds uri = None \<Longrightarrow>
   fst (fetchSettingsFromVSCode env uri ds) = spec_hostSettings env uri"
  by (simp add: fetchSettingsFromVSCode_def fetchVSCodeConfiguration_fst spec_hostSettings_def split_def Let_def)

lemma fetchSettingsForFolderUri_settings:
  "ext_settings (fst (fetchSettingsForFolderUri env uri ds)) =
     merge (fst (fetchSettingsFromVSCode env uri ds)) (fst (cspellFileSettingsByFolderCache env uri ds))"
  by (simp add: fetchSettingsForFolderUri_def split_def Let_def mergeSettings_def cspellFile_fst
        fetchSettingsFromVSCode_def fetchVSCodeConfiguration_fst)

lemma fetchSettingsForFolderUri_host:
  "ext_vscodeSettings (fst (fetchSettingsForFolderUri env uri ds)) = fst (fetchSettingsFromVSCode env uri ds)"
  by (simp add: fetchSettingsForFolderUri_def split_def Let_def
        fetchSettingsFromVSCode_def fetchVSCodeConfiguration_fst)

lemma fetchSettingsForUri_fst:
  "fst (fetchSettingsForUri env k ds) =
     (case c_fetchSettingsForUri ds k of Some v \<Rightarrow> v | None \<Rightarrow> fst (fetchSettingsForFolderUri env k ds))"
  by (simp add: fetchSettingsForUri_def split_def Let_def split: option.splits)

lemma findMatchingFolder_fst:
  "fst (findMatchingFolder env uri ds) =
     (case matchingFolders (fst (folders env ds)) uri of
        [] \<Rightarrow> \<lparr> folder_uri = uriRoot env (if uri = [] then defaultRootUri else uri), folder_name = ''root'' \<rparr>
      | m # _ \<Rightarrow> m)"
  by (simp add: findMatchingFolder_def matchingFoldersForUri_def split_def Let_def split: list.splits)

lemma findMatchingFolder_snd [simp]:
  "snd (findMatchingFolder env uri ds) = snd (folders env ds)"
  by (simp add: findMatchingFolder_def matchingFoldersForUri_def split_def Let_def split: list.splits)

lemma matchingFoldersForUri_snd [simp]:
  "snd (matchingFoldersForUri env uri ds) = snd (folders env ds)"
  by (simp add: matchingFoldersForUri_def split_def Let_def)

lemma fetchSettingsForFolderUri_cong:
  assumes "c_fetchVSCodeConfiguration ds k = c_fetchVSCodeConfiguration ds' k"
    and "c_cspellFileSettingsByFolder ds k = c_cspellFileSettingsByFolder ds' k"
  shows "fst (fetchSettingsForFolderUri env k ds) = fst (fetchSettingsForFolderUri env k ds')"
  using assms
  by (simp add: fetchSettingsForFolderUri_def split_def Let_def cspellFile_fst
        fetchSettingsFromVSCode_def fetchVSCodeConfiguration_fst)

lemma fetchSettingsForUri_cong:
  assumes "c_fetchSettingsForUri ds k = c_fetchSettingsForUri ds' k"
    and "c_fetchVSCodeConfiguration ds k = c_fetchVSCodeConfiguration ds' k"
    and "c_cspellFileSettingsByFolder ds k = c_cspellFileSettingsByFolder ds' k"
  shows "fst (fetchSettingsForUri env k ds) = fst (fetchSettingsForUri env k ds')"
  using assms fetchSettingsForFolderUri_cong [of ds k ds' env]
  by (simp add: fetchSettingsForUri_fst split: option.splits)

lemma importedSettings_cong:
  assumes "c_importedSettings ds = c_importedSettings ds'" and "configsToImport ds = configsToImport ds'"
  shows "fst (importedSettings env ds) = fst (importedSettings env ds')"
  using assms by (simp add: importedSettings_fst split: option.splits)

lemma folders_cong:
  assumes "c_folders ds = c_folders ds'"
  shows "fst (folders env ds) = fst (folders env ds')"
  using assms by (simp add: folders_fst split: option.splits)

lemma findMatchingFolder_cong:
  assumes "c_folders ds = c_folders ds'"
  shows "fst (findMatchingFolder env uri ds) = fst (findMatchingFolder env uri ds')"
  using assms folders_cong [of ds ds' env] by (simp add: findMatchingFolder_fst)

lemma fetchUriSettings_fst:
  "fst (fetchUriSettings env uri ds) =
     calcOverrideSettings env
       (mergeSettings (defaultSettings ds)
          [fst (importedSettings env ds),
           ext_settings (fst (fetchSettingsForUri env (folder_uri (fst (findMatchingFolder env uri ds))) ds))])
       (uriFsPath env uri)"
proof -
  define ds1 where "ds1 = log ''Start fetchUriSettings:'' [uri] ds"
  define folder where "folder = fst (findMatchingFolder env uri ds1)"
  define ds2 where "ds2 = snd (findMatchingFolder env uri ds1)"
  define ds3 where "ds3 = snd (fetchSettingsForUri env (folder_uri folder) ds2)"
  have unfolded: "fst (fetchUriSettings env uri ds) =
     calcOverrideSettings env
       (mergeSettings (defaultSettings (snd (importedSettings env ds3)))
          [fst (importedSettings env ds3),
           ext_settings (fst (fetchSettingsForUri env (folder_uri folder) ds2))])
       (uriFsPath env uri)"
    by (simp add: fetchUriSettings_def split_def Let_def ds1_def ds2_def ds3_def folder_def)
  have f: "folder = fst (findMatchingFolder env uri ds)"
    unfolding folder_def ds1_def by (rule findMatchingFolder_cong) simp
  have e: "fst (fetchSettingsForUri env (folder_uri folder) ds2)
         = fst (fetchSettingsForUri env (folder_uri folder) ds)"
    unfolding ds2_def ds1_def by (rule fetchSettingsForUri_cong) simp_all
  have i: "fst (importedSettings env ds3) = fst (importedSettings env ds)"
    unfolding ds3_def ds2_def ds1_def by (rule importedSettings_cong) simp_all
  have d: "defaultSettings (snd (importedSettings env ds3)) = defaultSettings ds"
    by (simp add: ds3_def ds2_def ds1_def)
  show ?thesis
    by (simp only: unfolded f [symmetric] e i d)
qed

lemma fetchUriSettings_frame [simp]:
  "cachedValues (snd (fetchUriSettings env k ds)) = cachedValues ds"
  "c_getUriSettings (snd (fetchUriSettings env k ds)) = c_getUriSettings ds"
  "configsToImport (snd (fetchUriSettings env k ds)) = configsToImport ds"
  "version (snd (fetchUriSettings env k ds)) = version ds"
  "defaultSettings (snd (fetchUriSettings env k ds)) = defaultSettings ds"
  by (simp_all add: fetchUriSettings_def Let_def split_def)

lemma getUriSettingsLoader_frame [simp]:
  "cachedValues (snd (getUriSettingsLoader env k ds)) = cachedValues ds"
  "c_getUriSettings (snd (getUriSettingsLoader env k ds)) = c_getUriSettings ds"
  "configsToImport (snd (getUriSettingsLoader env k ds)) = configsToImport ds"
  "version (snd (getUriSettingsLoader env k ds)) = version ds"
  "defaultSettings (snd (getUriSettingsLoader env k ds)) = defaultSettings ds"
  by (simp_all add: getUriSettingsLoader_def Let_def split_def)

lemma getUriSettings_frame [simp]:
  "cachedValues (snd (getUriSettings env k ds)) = cachedValues ds"
  "configsToImport (snd (getUriSettings env k ds)) = configsToImport ds"
  "version (snd (getUriSettings env k ds)) = version ds"
  "defaultSettings (snd (getUriSettings env k ds)) = defaultSettings ds"
  by (simp_all add: getUriSettings_def Let_def split_def split: option.splits)

lemma getUriSettings_fst:
  "fst (getUriSettings env k ds) =
     (case c_getUriSettings ds k of Some v \<Rightarrow> v | None \<Rightarrow> fst (getUriSettingsLoader env k ds))"
  by (simp add: getUriSettings_def split_def Let_def split: option.splits)

lemma getUriSettingsLoader_fst:
  "uri \<noteq> [] \<Longrightarrow> fst (getUriSettingsLoader env uri ds) = fst (fetchUriSettings env uri (log ''getUriSettings:'' [uri] ds))"
  by (simp add: getUriSettingsLoader_def Let_def)

lemma resolve_root_from_empty_caches:
  assumes "cachesEmpty ds"
  shows "fst (getUriSettings env [] ds) = spec_resolve env (defaultSettings ds) (configsToImport ds) []"
  using assms
  by (simp add: cachesEmpty_def getUriSettings_fst getUriSettingsLoader_def split_def Let_def
      importedSettings_fst spec_resolve_def mergeSettings_def)

lemma resolve_from_empty_caches:
  assumes "cachesEmpty ds" and "uri \<noteq> []"
  shows "fst (getUriSettings env uri ds) = spec_resolve env (defaultSettings ds) (configsToImport ds) uri"
  using assms
  by (simp add: cachesEmpty_def getUriSettings_fst getUriSettingsLoader_fst fetchUriSettings_fst
      importedSettings_fst fetchSettingsForUri_fst fetchSettingsForFolderUri_settings
      fetchSettingsFromVSCode_fst cspellFile_fst findMatchingFolder_fst folders_fst
      spec_resolve_def spec_folderSettings_def spec_owningFolder_def mergeSettings_def)

lemma fetchSettingsForFolderUri_dlog:
  "dlog (snd (fetchSettingsForFolderUri env k ds)) =
     dlog ds @ [(''fetchFolderSettings: URI '' @ k, [])]
       @ (if c_cspellFileSettingsByFolder ds k = None \<and> k \<noteq> []
          then [(''readSettingsFiles:'', configPathsForRoot env k)] else [])"
  by (simp add: fetchSettingsForFolderUri_def Let_def split_def cspellFile_dlog)

lemma fetchSettingsForUri_dlog:
  "dlog (snd (fetchSettingsForUri env k ds)) =
     dlog ds @ (if c_fetchSettingsForUri ds k = None
                then [(''fetchFolderSettings: URI '' @ k, [])]
                  @ (if c_cspellFileSettingsByFolder ds k = None \<and> k \<noteq> []
                     then [(''readSettingsFiles:'', configPathsForRoot env k)] else [])
                else [])"
  by (simp add: fetchSettingsForUri_def Let_def split_def fetchSettingsForFolderUri_dlog split: option.splits)

lemma importedSettings_dlog:
  "dlog (snd (importedSettings env ds)) =
     dlog ds @ (if c_importedSettings ds = None then [(''importSettings'', [])] else [])"
  by (simp add: importedSettings_def Let_def split: option.splits)

lemma findMatchingFolder_log [simp]:
  "fst (findMatchingFolder env uri (log m us ds)) = fst (findMatchingFolder env uri ds)"
  by (rule findMatchingFolder_cong) simp

lemma fetchUriSettings_dlog:
  "dlog (snd (fetchUriSettings env uri ds)) =
     dlog ds @ [(''Start fetchUriSettings:'', [uri])]
       @ (if c_fetchSettingsForUri ds (folder_uri (fst (findMatchingFolder env uri ds))) = None
          then [(''fetchFolderSettings: URI '' @ folder_uri (fst (findMatchingFolder env uri ds)), [])]
            @ (if c_cspellFileSettingsByFolder ds (folder_uri (fst (findMatchingFolder env uri ds))) = None
                  \<and> folder_uri (fst (findMatchingFolder env uri ds)) \<noteq> []
               then [(''readSettingsFiles:'',
                      configPathsForRoot env (folder_uri (fst (findMatchingFolder env uri ds))))]
               else [])
          else [])
       @ (if c_importedSettings ds = None then [(''importSettings'', [])] else [])
       @ [(''Finish fetchUriSettings:'', [uri])]"
  by (simp add: fetchUriSettings_def split_def Let_def fetchSettingsForUri_dlog importedSettings_dlog)

lemma getUriSettings_dlog:
  assumes "c_getUriSettings ds uri = None" and "uri \<noteq> []"
  shows "dlog (snd (getUriSettings env uri ds)) =
     dlog ds @ [(''getUriSettings:'', [uri]), (''Start fetchUriSettings:'', [uri])]
       @ (if c_fetchSettingsForUri ds (folder_uri (fst (findMatchingFolder env uri ds))) = None
          then [(''fetchFolderSettings: URI '' @ folder_uri (fst (findMatchingFolder env uri ds)), [])]
            @ (if c_cspellFileSettingsByFolder ds (folder_uri (fst (findMatchingFolder env uri ds))) = None
                  \<and> folder_uri (fst (findMatchingFolder env uri ds)) \<noteq> []
               then [(''readSettingsFiles:'',
                      configPathsForRoot env (folder_uri (fst (findMatchingFolder env uri ds))))]
               else [])
          else [])
       @ (if c_importedSettings ds = None then [(''importSettings'', [])] else [])
       @ [(''Finish fetchUriSettings:'', [uri])]"
  using assms
  by (simp add: getUriSettings_def getUriSettingsLoader_def split_def Let_def fetchUriSettings_dlog)

lemma fetchAll_frame [simp]:
  "cachedValues (snd (fetchAll env us ds)) = cachedValues ds"
  "c_getUriSettings (snd (fetchAll env us ds)) = c_getUriSettings ds"
  "configsToImport (snd (fetchAll env us ds)) = configsToImport ds"
  "version (snd (fetchAll env us ds)) = version ds"
  "defaultSettings (snd (fetchAll env us ds)) = defaultSettings ds"
  by (induction us arbitrary: ds; simp add: split_def Let_def)+

lemma findMatchingFolderSettings_frame [simp]:
  "cachedValues (snd (findMatchingFolderSettings env u ds)) = cachedValues ds"
  "c_getUriSettings (snd (findMatchingFolderSettings env u ds)) = c_getUriSettings ds"
  "configsToImport (snd (findMatchingFolderSettings env u ds)) = configsToImport ds"
  "version (snd (findMatchingFolderSettings env u ds)) = version ds"
  "defaultSettings (snd (findMatchingFolderSettings env u ds)) = defaultSettings ds"
  by (simp_all add: findMatchingFolderSettings_def split_def Let_def)

lemma isExcluded_frame [simp]:
  "cachedValues (snd (isExcluded env u ds)) = cachedValues ds"
  "c_getUriSettings (snd (isExcluded env u ds)) = c_getUriSettings ds"
  "configsToImport (snd (isExcluded env u ds)) = configsToImport ds"
  "version (snd (isExcluded env u ds)) = version ds"
  "defaultSettings (snd (isExcluded env u ds)) = defaultSettings ds"
  by (simp_all add: isExcluded_def split_def Let_def)

lemma clear_frame [simp]:
  "cachedValues (clear c ds) = cachedValues ds"
  "configsToImport (clear c ds) = configsToImport ds"
  "version (clear c ds) = version ds"
  "defaultSettings (clear c ds) = defaultSettings ds"
  "dlog (clear c ds) = dlog ds"
  by (cases c; simp add: clear_def)+

lemma fold_clear_frame [simp]:
  "cachedValues (fold clear cs ds) = cachedValues ds"
  "configsToImport (fold clear cs ds) = configsToImport ds"
  "version (fold clear cs ds) = version ds"
  "defaultSettings (fold clear cs ds) = defaultSettings ds"
  "dlog (fold clear cs ds) = dlog ds"
  by (induction cs arbitrary: ds; simp)+

lemma clear_caches:
  "c_getUriSettings (clear c ds) = (if c = GetUriSettings then Map.empty else c_getUriSettings ds)"
  "c_fetchSettingsForUri (clear c ds) = (if c = FetchSettingsForUri then Map.empty else c_fetchSettingsForUri ds)"
  "c_cspellFileSettingsByFolder (clear c ds) =
     (if c = CspellFileSettingsByFolderCache then Map.empty else c_cspellFileSettingsByFolder ds)"
  "c_fetchVSCodeConfiguration (clear c ds) =
     (if c = FetchVSCodeConfiguration then Map.empty else c_fetchVSCodeConfiguration ds)"
  "c_folders (clear c ds) = (if c = Folders then None else c_folders ds)"
  "c_importedSettings (clear c ds) = (if c = ImportedSettings then None else c_importedSettings ds)"
  by (cases c; simp add: clear_def)+

lemma fold_clear_caches:
  "c_getUriSettings (fold clear cs ds) = (if GetUriSettings \<in> set cs then Map.empty else c_getUriSettings ds)"
  "c_fetchSettingsForUri (fold clear cs ds) = (if FetchSettingsForUri \<in> set cs then Map.empty else c_fetchSettingsForUri ds)"
  "c_cspellFileSettingsByFolder (fold clear cs ds) =
     (if CspellFileSettingsByFolderCache \<in> set cs then Map.empty else c_cspellFileSettingsByFolder ds)"
  "c_fetchVSCodeConfiguration (fold clear cs ds) =
     (if FetchVSCodeConfiguration \<in> set cs then Map.empty else c_fetchVSCodeConfiguration ds)"
  "c_folders (fold clear cs ds) = (if Folders \<in> set cs then None else c_folders ds)"
  "c_importedSettings (fold clear cs ds) = (if ImportedSettings \<in> set cs then None else c_importedSettings ds)"
  by (induction cs arbitrary: ds; simp add: clear_caches)+

lemma resetSettings_frame [simp]:
  "cachedValues (resetSettings ds) = cachedValues ds"
  "configsToImport (resetSettings ds) = configsToImport ds"
  "version (resetSettings ds) = version ds + 1"
  "defaultSettings (resetSettings ds) = defaultSettings ds"
  "dlog (resetSettings ds) = dlog ds @ [(''resetSettings'', [])]"
  by (simp_all add: resetSettings_def Let_def)

lemma registerConfigurationFile_frame [simp]:
  "cachedValues (registerConfigurationFile p ds) = cachedValues ds"
  "defaultSettings (registerConfigurationFile p ds) = defaultSettings ds"
  "version (registerConfigurationFile p ds) = version ds + 1"
  by (simp_all add: registerConfigurationFile_def Let_def)

lemma new_cachedValues: "cachedValues (newDocumentSettings d) = allClearables"
  by (simp add: newDocumentSettings_def createCache_def createLazy_def allClearables_def)

lemma new_defaultSettings: "defaultSettings (newDocumentSettings d) = d"
  by (simp add: newDocumentSettings_def createCache_def createLazy_def)

lemma call_frame [simp]:
  "cachedValues (call ds c) = cachedValues ds" "defaultSettings (call ds c) = defaultSettings ds"
  by (cases c; simp)+

lemma call_version: "version ds \<le> version (call ds c)"
  by (cases c) simp_all

lemma calls_frame [simp]:
  "cachedValues (calls ds cs) = cachedValues ds" "defaultSettings (calls ds cs) = defaultSettings ds"
  unfolding calls_def by (induction cs arbitrary: ds; simp)+

lemma allClearables_UNIV: "set allClearables = UNIV"
proof -
  have "c \<in> set allClearables" for c by (cases c) (simp_all add: allClearables_def)
  then show ?thesis by auto
qed

lemma resetSettings_clears:
  assumes "set (cachedValues ds) = UNIV"
  shows "cachesEmpty (resetSettings ds)"
  using assms
  by (simp add: resetSettings_def Let_def cachesEmpty_def fold_clear_caches)

lemma merge_scalars:
  "settingsId (merge l r) = (case settingsId r of None \<Rightarrow> settingsId l | Some v \<Rightarrow> Some v)"
  "enabled (merge l r) = (case enabled r of None \<Rightarrow> enabled l | Some v \<Rightarrow> Some v)"
  "checkLimit (merge l r) = (case checkLimit r of None \<Rightarrow> checkLimit l | Some v \<Rightarrow> Some v)"
  "spellCheckDelayMs (merge l r) = (case spellCheckDelayMs r of None \<Rightarrow> spellCheckDelayMs l | Some v \<Rightarrow> Some v)"
  by (simp_all add: merge_def takeRight_def)

lemma new_cachesEmpty: "cachesEmpty (newDocumentSettings d)"
  by (simp add: cachesEmpty_def newDocumentSettings_def createCache_def createLazy_def)

lemma fresh_host:
  "fst (fetchSettingsFromVSCode env uri (newDocumentSettings d)) = spec_hostSettings env uri"
  using new_cachesEmpty [of d] by (simp add: fetchSettingsFromVSCode_fst cachesEmpty_def)

lemma fresh_file:
  "fst (cspellFileSettingsByFolderCache env uri (newDocumentSettings d)) = spec_fileSettings env uri"
  using new_cachesEmpty [of d] by (simp add: cspellFile_fst cachesEmpty_def)

lemma envOne_host: "checkLimit (spec_hostSettings envOne ''file:///w'') = Some 500"
  "enabled (spec_hostSettings envOne ''file:///w'') = None"
  by code_simp+

lemma envOne_file: "checkLimit (spec_fileSettings envOne ''file:///w'') = Some 1000"
  "enabled (spec_fileSettings envOne ''file:///w'') = None"
  by code_simp+

section \<open>Editor settings and the folder's configuration files\<close>

text \<open>
  C2, as the code has it.  \<^verbatim>\<open>_fetchSettingsForFolderUri\<close> merges the editor's settings (left)
  with the settings of the folder's configuration files (right), so the files take
  precedence, as the comment in the source says: for each scalar key, the folder's
  settings carry the value of the configuration files when they have one, and the value of
  the editor's settings only when the files have none.
\<close>

theorem C2_file_settings_take_precedence:
  assumes "ext = fst (fetchSettingsForFolderUri env uri ds)"
    and "host = fst (fetchSettingsFromVSCode env uri ds)"
    and "file = fst (cspellFileSettingsByFolderCache env uri ds)"
  shows "ext_vscodeSettings ext = host \<and> ext_settings ext = mergeSettings host [file]
    \<and> enabled (ext_settings ext) = (case enabled file of None \<Rightarrow> enabled host | Some v \<Rightarrow> Some v)
    \<and> checkLimit (ext_settings ext) = (case checkLimit file of None \<Rightarrow> checkLimit host | Some v \<Rightarrow> Some v)
    \<and> spellCheckDelayMs (ext_settings ext)
        = (case spellCheckDelayMs file of None \<Rightarrow> spellCheckDelayMs host | Some v \<Rightarrow> Some v)"
  using assms
  by (simp add: fetchSettingsForFolderUri_host fetchSettingsForFolderUri_settings mergeSettings_def
        merge_scalars split: option.splits)

text \<open>
  C2 as stated fails: with \<^verbatim>\<open>checkLimit\<close> 500 in the editor's settings and 1000 in the
  folder's configuration file, the key is present in both sources and the folder's
  settings carry 1000, not the editor's value.
\<close>

theorem C2_counterexample:
  "checkLimit (fst (fetchSettingsFromVSCode envOne ''file:///w'' (newDocumentSettings emptySettings))) = Some 500
   \<and> checkLimit (fst (cspellFileSettingsByFolderCache envOne ''file:///w'' (newDocumentSettings emptySettings))) = Some 1000
   \<and> checkLimit (ext_settings (fst (fetchSettingsForFolderUri envOne ''file:///w'' (newDocumentSettings emptySettings))))
       = Some 1000
   \<and> checkLimit (ext_settings (fst (fetchSettingsForFolderUri envOne ''file:///w'' (newDocumentSettings emptySettings))))
       \<noteq> checkLimit (fst (fetchSettingsFromVSCode envOne ''file:///w'' (newDocumentSettings emptySettings)))"
  by (simp add: fresh_host fresh_file fetchSettingsForFolderUri_settings merge_scalars envOne_host envOne_file)

theorem C2_witness:
  "checkLimit (ext_settings (fst (fetchSettingsForFolderUri envOne ''file:///w'' (newDocumentSettings emptySettings))))
     = Some 1000
   \<and> enabled (ext_settings (fst (fetchSettingsForFolderUri envOne ''file:///w'' (newDocumentSettings emptySettings))))
     = None"
  using C2_file_settings_take_precedence [OF refl refl refl, of envOne "''file:///w''" "newDocumentSettings emptySettings"]
  by (simp add: fresh_host fresh_file envOne_host envOne_file mergeSettings_def merge_scalars)

section \<open>The order of the merge\<close>












section \<open>Resetting the settings\<close>

lemma spec_owningFolder_eq:
  assumes "c_folders ds = None" and "uri \<noteq> []"
  shows "fst (findMatchingFolder env uri ds) = spec_owningFolder env uri"
  using assms by (simp add: findMatchingFolder_fst folders_fst spec_owningFolder_def)

lemma log_after_reset:
  assumes "cachesEmpty ds" and "uri \<noteq> []"
  shows "dlog (snd (getUriSettings env uri ds)) =
     dlog ds @ [(''getUriSettings:'', [uri]), (''Start fetchUriSettings:'', [uri]),
                (''fetchFolderSettings: URI '' @ folder_uri (spec_owningFolder env uri), [])]
       @ (if folder_uri (spec_owningFolder env uri) = [] then []
          else [(''readSettingsFiles:'', configPathsForRoot env (folder_uri (spec_owningFolder env uri)))])
       @ [(''importSettings'', []), (''Finish fetchUriSettings:'', [uri])]"
proof -
  have c: "c_getUriSettings ds uri = None" "c_folders ds = None" "c_importedSettings ds = None"
    "c_fetchSettingsForUri ds k = None" "c_cspellFileSettingsByFolder ds k = None" for k
    using assms(1) by (simp_all add: cachesEmpty_def)
  show ?thesis
    by (simp add: getUriSettings_dlog [OF c(1) assms(2)] c spec_owningFolder_eq [OF c(2) assms(2)])
qed

text \<open>
  C7.  Whatever calls have been made on a \<^verbatim>\<open>DocumentSettings\<close> object since its
  construction, every cache and lazy value is on its registry; one call of
  \<^verbatim>\<open>resetSettings\<close> empties them all and increments the version, which therefore grows
  strictly; and the next resolution of any URI is computed anew from the world as it then
  is, as the log shows: the settings of the folder are fetched again, its configuration
  files are read again (\<^verbatim>\<open>readSettingsFiles\<close> is not called for a folder with an empty URI),
  and the imported settings are read again.  (The version is a JavaScript number; the
  model counts in natural numbers.)
\<close>

theorem C7_reset_clears_every_cache:
  assumes "ds = calls (newDocumentSettings d) cs"
  shows "set (cachedValues ds) = UNIV
    \<and> cachesEmpty (resetSettings ds)
    \<and> version (resetSettings ds) = version ds + 1
    \<and> version ds < version (resetSettings ds)
    \<and> fst (getUriSettings env uri (resetSettings ds)) = spec_resolve env d (configsToImport ds) uri
    \<and> (uri \<noteq> [] \<longrightarrow>
         dlog (snd (getUriSettings env uri (resetSettings ds))) =
           dlog ds @ [(''resetSettings'', []), (''getUriSettings:'', [uri]), (''Start fetchUriSettings:'', [uri]),
                (''fetchFolderSettings: URI '' @ folder_uri (spec_owningFolder env uri), [])]
             @ (if folder_uri (spec_owningFolder env uri) = [] then []
                else [(''readSettingsFiles:'', configPathsForRoot env (folder_uri (spec_owningFolder env uri)))])
             @ [(''importSettings'', []), (''Finish fetchUriSettings:'', [uri])])"
proof -
  have reg: "set (cachedValues ds) = UNIV"
    using assms by (simp add: new_cachedValues allClearables_UNIV)
  have emp: "cachesEmpty (resetSettings ds)"
    using reg by (rule resetSettings_clears)
  have d: "defaultSettings (resetSettings ds) = d"
    using assms by (simp add: new_defaultSettings)
  have res: "fst (getUriSettings env uri (resetSettings ds)) = spec_resolve env d (configsToImport ds) uri"
  proof (cases "uri = []")
    case True
    then show ?thesis using resolve_root_from_empty_caches [OF emp, of env] d by simp
  next
    case False
    then show ?thesis using resolve_from_empty_caches [OF emp False, of env] d by simp
  qed
  have lg: "uri \<noteq> [] \<longrightarrow>
         dlog (snd (getUriSettings env uri (resetSettings ds))) =
           dlog ds @ [(''resetSettings'', []), (''getUriSettings:'', [uri]), (''Start fetchUriSettings:'', [uri]),
                (''fetchFolderSettings: URI '' @ folder_uri (spec_owningFolder env uri), [])]
             @ (if folder_uri (spec_owningFolder env uri) = [] then []
                else [(''readSettingsFiles:'', configPathsForRoot env (folder_uri (spec_owningFolder env uri)))])
             @ [(''importSettings'', []), (''Finish fetchUriSettings:'', [uri])]"
    using log_after_reset [OF emp, of uri env] by simp
  show ?thesis
    using reg emp res lg by simp
qed

lemma envTwo_resolve:
  "checkLimit (spec_resolve envOne emptySettings [] ''file:///w/a.txt'') = Some 1000"
  "checkLimit (spec_resolve envTwo emptySettings [] ''file:///w/a.txt'') = Some 2000"
  "folder_uri (spec_owningFolder envTwo ''file:///w/a.txt'') = ''file:///w''"
  "configPathsForRoot envTwo ''file:///w'' =
     [''/w/.vscode/cspell.json'', ''/w/.vscode/cSpell.json'', ''/w/cspell.json'', ''/w/cSpell.json'']"
  by code_simp+

lemma dsStale_cached:
  "c_getUriSettings dsStale ''file:///w/a.txt'' = Some (spec_resolve envOne emptySettings [] ''file:///w/a.txt'')"
  "configsToImport dsStale = []"
proof -
  have e: "cachesEmpty (newDocumentSettings emptySettings)" by (rule new_cachesEmpty)
  have ne: "''file:///w/a.txt'' \<noteq> []" by simp
  have c: "c_getUriSettings (newDocumentSettings emptySettings) ''file:///w/a.txt'' = None"
    using e by (simp add: cachesEmpty_def)
  have i: "configsToImport (newDocumentSettings emptySettings) = []"
    by (simp add: newDocumentSettings_def createCache_def createLazy_def)
  have "c_getUriSettings (snd (getUriSettings envOne ''file:///w/a.txt'' (newDocumentSettings emptySettings)))
          ''file:///w/a.txt''
        = Some (fst (getUriSettings envOne ''file:///w/a.txt'' (newDocumentSettings emptySettings)))"
    using c by (simp add: getUriSettings_def split_def Let_def)
  then show "c_getUriSettings dsStale ''file:///w/a.txt'' = Some (spec_resolve envOne emptySettings [] ''file:///w/a.txt'')"
    using resolve_from_empty_caches [OF e ne, of envOne] i
    by (simp add: dsStale_def calls_def new_defaultSettings)
  show "configsToImport dsStale = []"
    using i by (simp add: dsStale_def calls_def)
qed

theorem C7_witness:
  "checkLimit (fst (getUriSettings envTwo ''file:///w/a.txt'' dsStale)) = Some 1000
   \<and> checkLimit (fst (getUriSettings envTwo ''file:///w/a.txt'' (resetSettings dsStale))) = Some 2000
   \<and> version dsStale = 0 \<and> version (resetSettings dsStale) = 1
   \<and> cachesEmpty (resetSettings dsStale)
   \<and> dlog (snd (getUriSettings envTwo ''file:///w/a.txt'' (resetSettings dsStale))) =
       dlog dsStale @ [(''resetSettings'', []), (''getUriSettings:'', [''file:///w/a.txt'']),
         (''Start fetchUriSettings:'', [''file:///w/a.txt'']), (''fetchFolderSettings: URI file:///w'', []),
         (''readSettingsFiles:'',
            [''/w/.vscode/cspell.json'', ''/w/.vscode/cSpell.json'', ''/w/cspell.json'', ''/w/cSpell.json'']),
         (''importSettings'', []), (''Finish fetchUriSettings:'', [''file:///w/a.txt''])]"
proof -
  note t = C7_reset_clears_every_cache [OF dsStale_def, of envTwo "''file:///w/a.txt''"]
  have v: "version dsStale = 0"
    by (simp add: dsStale_def calls_def) (simp add: newDocumentSettings_def createCache_def createLazy_def)
  have s: "checkLimit (fst (getUriSettings envTwo ''file:///w/a.txt'' dsStale)) = Some 1000"
    by (simp add: getUriSettings_fst dsStale_cached envTwo_resolve)
  show ?thesis
    using t v s by (simp add: dsStale_cached envTwo_resolve)
qed


section \<open>Validating one document\<close>

lemmas validate_defs = validateTextDocument_def validateBegin_def validateResume_def tryBegin_def
  tryResume_def catchThenReturn_def resolution_def Let_def split_def

lemma three: "(3::nat) = Suc (Suc (Suc 0))" by simp

lemma serialisable_iff: "serialisable e = (\<exists>text. e = Error text)"
  by (cases e) (simp_all add: serialisable_def stringify_def)

lemma isUriAllowed_cases:
  "(\<exists>e. uriScheme lib u = Inl e \<and> isUriAllowed lib u schemes = Inl e)
   \<or> (\<exists>b. isUriAllowed lib u schemes = Inr b)"
  by (cases "uriScheme lib u") (simp_all add: isUriAllowed_def doesUriMatchAnyScheme_def)

text \<open>
  What \<^verbatim>\<open>validateTextDocument\<close> does when every value that is thrown can be rendered by
  \<^verbatim>\<open>JSON.stringify\<close>: it resolves with a result for the URI of the document.
\<close>

lemma validate_total:
  assumes "\<And>e. uriScheme lib (doc_uri (dsp_doc dsp)) = Inl e \<Longrightarrow> serialisable e"
    and "\<And>e. r_isUriExcluded rs = Inl e \<Longrightarrow> serialisable e"
    and "\<And>e. r_settingsToUse rs = Inl e \<Longrightarrow> serialisable e"
    and "\<And>e. r_validator rs = Inl e \<Longrightarrow> serialisable e"
  shows "\<exists>acts diagnostics. validateTextDocument lib rs dsp = (acts, Resolved (doc_uri (dsp_doc dsp), diagnostics))"
proof -
  from isUriAllowed_cases [of lib "doc_uri (dsp_doc dsp)" "allowedSchemas (dsp_settings dsp)"]
  consider (T) e where "uriScheme lib (doc_uri (dsp_doc dsp)) = Inl e"
      "isUriAllowed lib (doc_uri (dsp_doc dsp)) (allowedSchemas (dsp_settings dsp)) = Inl e"
    | (A) b where "isUriAllowed lib (doc_uri (dsp_doc dsp)) (allowedSchemas (dsp_settings dsp)) = Inr b"
    by blast
  then show ?thesis
  proof cases
    case T
    then obtain msg where "e = Error msg" using assms(1) by (auto simp: serialisable_iff)
    then show ?thesis using T by (simp add: validate_defs three stringify_def)
  next
    case A
    show ?thesis
      using A assms(2-4)
      by (cases "r_isUriExcluded rs"; cases "r_settingsToUse rs"; cases "r_validator rs")
         (auto simp add: validate_defs three stringify_def serialisable_iff)
  qed
qed

lemma validate_not_allowed:
  "isUriAllowed lib (doc_uri (dsp_doc dsp)) (allowedSchemas (dsp_settings dsp)) = Inr False \<Longrightarrow>
   validateTextDocument lib rs dsp =
     ([Log ''Schema not allowed, skipping:'' (doc_uri (dsp_doc dsp))], Resolved (doc_uri (dsp_doc dsp), []))"
  by (simp add: validate_defs three)

lemma validate_should_not:
  "isUriAllowed lib (doc_uri (dsp_doc dsp)) (allowedSchemas (dsp_settings dsp)) = Inr True \<Longrightarrow>
   shouldValidateDocument rs (dsp_doc dsp) (dsp_settings dsp) = Inr False \<Longrightarrow>
   validateTextDocument lib rs dsp =
     ([Log ''validateTextDocument skip:'' (doc_uri (dsp_doc dsp))], Resolved (doc_uri (dsp_doc dsp), []))"
  by (cases "r_isUriExcluded rs"; cases "r_settingsToUse rs"; cases "r_validator rs")
     (auto simp add: validate_defs three shouldValidateDocument_def split: if_splits)

lemma validate_disabled:
  "isUriAllowed lib (doc_uri (dsp_doc dsp)) (allowedSchemas (dsp_settings dsp)) = Inr True \<Longrightarrow>
   shouldValidateDocument rs (dsp_doc dsp) (dsp_settings dsp) = Inr True \<Longrightarrow>
   r_settingsToUse rs = Inr settingsToUse \<Longrightarrow> \<not> truthy (enabled settingsToUse) \<Longrightarrow>
   validateTextDocument lib rs dsp = ([], Resolved (doc_uri (dsp_doc dsp), []))"
  by (cases "r_isUriExcluded rs"; cases "r_validator rs")
     (auto simp add: validate_defs three shouldValidateDocument_def split: if_splits)

lemma validate_analyzer_throws:
  "isUriAllowed lib (doc_uri (dsp_doc dsp)) (allowedSchemas (dsp_settings dsp)) = Inr True \<Longrightarrow>
   shouldValidateDocument rs (dsp_doc dsp) (dsp_settings dsp) = Inr True \<Longrightarrow>
   r_settingsToUse rs = Inr settingsToUse \<Longrightarrow> truthy (enabled settingsToUse) \<Longrightarrow>
   r_validator rs = Inl e \<Longrightarrow>
   validateTextDocument lib rs dsp =
     (case stringify e of
        Inr text \<Rightarrow>
          ([Log ''Validate File'' (doc_uri (dsp_doc dsp)),
            Log ''validateTextDocument start'' (doc_uri (dsp_doc dsp)),
            ValidatorCall (doc_uri (dsp_doc dsp)), LogError (''validateTextDocument: '' @ text)],
           Resolved (doc_uri (dsp_doc dsp), []))
      | Inl e' \<Rightarrow>
          ([Log ''Validate File'' (doc_uri (dsp_doc dsp)),
            Log ''validateTextDocument start'' (doc_uri (dsp_doc dsp)),
            ValidatorCall (doc_uri (dsp_doc dsp))],
           Rejected e'))"
  by (cases "r_isUriExcluded rs"; cases "stringify e")
     (auto simp add: validate_defs three shouldValidateDocument_def split: if_splits)

lemma validate_settings_throw:
  "isUriAllowed lib (doc_uri (dsp_doc dsp)) (allowedSchemas (dsp_settings dsp)) = Inr True \<Longrightarrow>
   shouldValidateDocument rs (dsp_doc dsp) (dsp_settings dsp) = Inr True \<Longrightarrow>
   r_settingsToUse rs = Inl e \<Longrightarrow>
   validateTextDocument lib rs dsp =
     (case stringify e of
        Inr text \<Rightarrow> ([LogError (''validateTextDocument: '' @ text)], Resolved (doc_uri (dsp_doc dsp), []))
      | Inl e' \<Rightarrow> ([], Rejected e'))"
  by (cases "r_isUriExcluded rs"; cases "stringify e")
     (auto simp add: validate_defs three shouldValidateDocument_def split: if_splits)

lemma validate_excluded_throws:
  "isUriAllowed lib (doc_uri (dsp_doc dsp)) (allowedSchemas (dsp_settings dsp)) = Inr True \<Longrightarrow>
   shouldValidateDocument rs (dsp_doc dsp) (dsp_settings dsp) = Inl e \<Longrightarrow>
   validateTextDocument lib rs dsp =
     (case stringify e of
        Inr text \<Rightarrow> ([LogError (''validateTextDocument: '' @ text)], Resolved (doc_uri (dsp_doc dsp), []))
      | Inl e' \<Rightarrow> ([], Rejected e'))"
  by (cases "r_isUriExcluded rs"; cases "stringify e")
     (auto simp add: validate_defs three shouldValidateDocument_def split: if_splits)

lemma validate_parse_throws:
  "uriScheme lib (doc_uri (dsp_doc dsp)) = Inl e \<Longrightarrow>
   validateTextDocument lib rs dsp =
     (case stringify e of
        Inr text \<Rightarrow> ([LogError (''validateTextDocument: '' @ text)], Resolved (doc_uri (dsp_doc dsp), []))
      | Inl e' \<Rightarrow> ([], Rejected e'))"
  by (cases "stringify e")
     (auto simp add: validate_defs three isUriAllowed_def doesUriMatchAnyScheme_def)

lemma validate_analyzer_returns:
  "isUriAllowed lib (doc_uri (dsp_doc dsp)) (allowedSchemas (dsp_settings dsp)) = Inr True \<Longrightarrow>
   shouldValidateDocument rs (dsp_doc dsp) (dsp_settings dsp) = Inr True \<Longrightarrow>
   r_settingsToUse rs = Inr settingsToUse \<Longrightarrow> truthy (enabled settingsToUse) \<Longrightarrow>
   r_validator rs = Inr diagnostics \<Longrightarrow>
   validateTextDocument lib rs dsp =
     ([Log ''Validate File'' (doc_uri (dsp_doc dsp)),
       Log ''validateTextDocument start'' (doc_uri (dsp_doc dsp)),
       ValidatorCall (doc_uri (dsp_doc dsp)), ValidatorDone (doc_uri (dsp_doc dsp)),
       Log ''validateTextDocument done'' (doc_uri (dsp_doc dsp))],
      Resolved (doc_uri (dsp_doc dsp), diagnostics))"
  by (cases "r_isUriExcluded rs")
     (auto simp add: validate_defs three shouldValidateDocument_def split: if_splits)

text \<open>
  C6 fails on the code.  \<^verbatim>\<open>validate\<close> wraps its body in \<^verbatim>\<open>try\<close> and \<^verbatim>\<open>catch\<close> and returns empty
  diagnostics after the \<^verbatim>\<open>catch\<close> clause, so that nothing thrown inside is to leave it; but
  the clause itself calls \<^verbatim>\<open>JSON.stringify\<close> on the value it caught, and what that call
  throws is not caught.  Here the analyzer rejects with a value that \<^verbatim>\<open>JSON.stringify\<close> does
  not render: \<^verbatim>\<open>validateTextDocument\<close> rejects and nothing is logged.  In the server the
  rejection is an unhandled error of the document's pipeline, which is closed, and
  \<^verbatim>\<open>isValidationBusy\<close> stays set.  When the analyzer rejects with a value that can be
  rendered, the failure is logged and the diagnostics are empty, as the claim says.
\<close>

theorem C6_rejects_when_error_is_not_serialisable:
  "validateTextDocument (exampleLibraries RxJS6) analyzerFailsCyclic \<lparr> dsp_doc = docA, dsp_settings = settingsOn \<rparr> =
     ([Log ''Validate File'' ''file:///a.txt'', Log ''validateTextDocument start'' ''file:///a.txt'',
       ValidatorCall ''file:///a.txt''],
      Rejected (Error ''{}''))
   \<and> trace (run (exampleLibraries RxJS6) initial cyclicEvents) =
       [Log ''Request Validate'' ''file:///a.txt'', Log ''blocked? false'' ''file:///a.txt'',
        ValidateTextDocument ''file:///a.txt'', Log ''Validate File'' ''file:///a.txt'',
        Log ''validateTextDocument start'' ''file:///a.txt'', ValidatorCall ''file:///a.txt'',
        UnhandledError (Error ''{}'')]
   \<and> isValidationBusy (run (exampleLibraries RxJS6) initial cyclicEvents)
   \<and> pipelines (run (exampleLibraries RxJS6) initial cyclicEvents) = []
   \<and> validating (run (exampleLibraries RxJS6) initial cyclicEvents) = []
   \<and> validateTextDocument (exampleLibraries RxJS6) analyzerFails \<lparr> dsp_doc = docA, dsp_settings = settingsOn \<rparr> =
       ([Log ''Validate File'' ''file:///a.txt'', Log ''validateTextDocument start'' ''file:///a.txt'',
         ValidatorCall ''file:///a.txt'', LogError ''validateTextDocument: boom''],
        Resolved (''file:///a.txt'', []))"
  by code_simp

section \<open>Facts about the steps of the server\<close>

lemma extendsI: "trace s' = trace s @ as \<Longrightarrow> list_all P as \<Longrightarrow> extends P s s'"
  by (simp add: extends_def)

lemma extendsE: "extends P s s' \<Longrightarrow> \<exists>as. trace s' = trace s @ as \<and> list_all P as"
  unfolding extends_def by (metis append_take_drop_id)

lemma extends_refl [simp]: "extends P s s"
  by (simp add: extends_def)

lemma extends_trans: "extends P s s' \<Longrightarrow> extends P s' s'' \<Longrightarrow> extends P s s''"
proof -
  assume "extends P s s'" "extends P s' s''"
  then obtain as bs where "trace s' = trace s @ as" "list_all P as" "trace s'' = trace s' @ bs" "list_all P bs"
    by (blast dest: extendsE)
  then show ?thesis by (intro extendsI [where as = "as @ bs"]) simp_all
qed

lemma extends_weaken: "extends P s s' \<Longrightarrow> (\<And>a. P a \<Longrightarrow> Q a) \<Longrightarrow> extends Q s s'"
  by (auto simp: extends_def list_all_iff)

lemma extends_trace_eq: "trace s' = trace s \<Longrightarrow> extends P s s'"
  by (simp add: extends_def)

lemma extends_count:
  assumes "extends P s s'" and "\<not> P a"
  shows "count_list (trace s') a = count_list (trace s) a"
proof -
  obtain as where as: "trace s' = trace s @ as" "list_all P as"
    using assms(1) by (blast dest: extendsE)
  then have "a \<notin> set as" using assms(2) by (auto simp: list_all_iff)
  then show ?thesis using as by (simp add: count_list_0_iff)
qed

lemma extends_notin:
  assumes "extends P s s'" and "\<not> P a" and "a \<notin> set (trace s)"
  shows "a \<notin> set (trace s')"
proof -
  obtain as where as: "trace s' = trace s @ as" "list_all P as"
    using assms(1) by (blast dest: extendsE)
  then have "a \<notin> set as" using assms(2) by (auto simp: list_all_iff)
  then show ?thesis using as assms(3) by simp
qed

lemma act_fields [simp]:
  "validationRequestStream (act as s) = validationRequestStream s"
  "validationByDoc (act as s) = validationByDoc s"
  "blockValidation (act as s) = blockValidation s"
  "isValidationBusy (act as s) = isValidationBusy s"
  "disposed (act as s) = disposed s"
  "disposableValidateClosed (act as s) = disposableValidateClosed s"
  "pipelines (act as s) = pipelines s"
  "validating (act as s) = validating s"
  "nextSubscription (act as s) = nextSubscription s"
  "trace (act as s) = trace s @ as"
  by (simp_all add: act_def)

lemma extends_act: "list_all P as \<Longrightarrow> trace s' = trace s \<Longrightarrow> extends P s (act as s')"
  by (rule extendsI [where as = as]) simp_all

lemma pipelineNext_log: "list_all isReport (snd (pipelineNext doc p))"
  by (simp add: pipelineNext_def isReport_def)

lemma deliver_fst: "fst (deliver doc ids ps) = map (received doc ids) (filter (keeps doc ids) ps)"
  by (induction ps) (auto simp: split_def Let_def pipelineNext_def keeps_def received_def)

lemma deliver_snd: "list_all isReport (snd (deliver doc ids ps))"
  by (induction ps) (auto simp: split_def Let_def pipelineNext_log)

lemma received_fields [simp]:
  "p_id (received doc ids p) = p_id p" "p_uri (received doc ids p) = p_uri p"
  "p_ignore (received doc ids p) = p_ignore p" "p_debounce (received doc ids p) = p_debounce p"
  by (simp_all add: received_def)

lemma subscribePipeline_fields [simp]:
  "validationRequestStream (subscribePipeline ig uri s) = validationRequestStream s"
  "validationByDoc (subscribePipeline ig uri s) = (validationByDoc s)(uri \<mapsto> nextSubscription s)"
  "blockValidation (subscribePipeline ig uri s) = blockValidation s"
  "isValidationBusy (subscribePipeline ig uri s) = isValidationBusy s"
  "disposed (subscribePipeline ig uri s) = disposed s"
  "disposableValidateClosed (subscribePipeline ig uri s) = disposableValidateClosed s"
  "validating (subscribePipeline ig uri s) = validating s"
  "nextSubscription (subscribePipeline ig uri s) = nextSubscription s + 1"
  by (simp_all add: subscribePipeline_def Let_def split_def)

lemma subscribePipeline_pipelines:
  "\<exists>new. pipelines (subscribePipeline ig uri s) = pipelines s @ new
     \<and> list_all (\<lambda>p. p_id p = nextSubscription s \<and> p_uri p = uri \<and> p_ignore p = ig) new
     \<and> length new \<le> 1"
  by (auto simp: subscribePipeline_def Let_def split_def pipelineNext_def split: option.splits)

lemma subscribePipeline_extends: "extends isReport s (subscribePipeline ig uri s)"
  by (rule extendsI [where as = "snd (case validationRequestStream s of None \<Rightarrow> (Some undefined, [])
        | Some d \<Rightarrow> pipelineNext d \<lparr> p_id = nextSubscription s, p_uri = uri, p_ignore = ig,
                p_fetching = [], p_debounce = None \<rparr>)"])
     (auto simp: subscribePipeline_def Let_def split_def pipelineNext_log split: option.splits)

lemma tracked_subscribe:
  assumes "tracked s" and "validationByDoc s uri = None"
  shows "tracked (subscribePipeline ig uri s)"
proof -
  obtain new where new: "pipelines (subscribePipeline ig uri s) = pipelines s @ new"
    "list_all (\<lambda>p. p_id p = nextSubscription s \<and> p_uri p = uri \<and> p_ignore p = ig) new"
    "length new \<le> 1"
    using subscribePipeline_pipelines by blast
  have old: "\<forall>p \<in> set (pipelines s). p_uri p \<noteq> uri \<and> p_id p < nextSubscription s"
    using assms by (auto simp: tracked_def list_all_iff)
  have dn: "distinct (map p_id new)"
    using new(3) by (cases new) (auto simp: le_Suc_eq)
  show ?thesis
    using assms new(2) old dn
    by (auto simp: tracked_def new(1) list_all_iff)
qed

lemma disposableValidateNext_fields [simp]:
  "validationRequestStream (disposableValidateNext lib uri s) = validationRequestStream s"
  "blockValidation (disposableValidateNext lib uri s) = blockValidation s"
  "isValidationBusy (disposableValidateNext lib uri s) = isValidationBusy s"
  "disposed (disposableValidateNext lib uri s) = disposed s"
  "validating (disposableValidateNext lib uri s) = validating s"
  by (simp_all add: disposableValidateNext_def split: sum.splits)

lemma disposableValidateNext_pipelines:
  "\<exists>new. pipelines (disposableValidateNext lib uri s) = pipelines s @ new"
proof (cases "isUriBlackListed lib uri")
  case (Inl e)
  then show ?thesis by (simp add: disposableValidateNext_def)
next
  case (Inr ig)
  then show ?thesis using subscribePipeline_pipelines [of ig uri s] by (auto simp: disposableValidateNext_def)
qed

lemma disposableValidateNext_extends: "extends isReport s (disposableValidateNext lib uri s)"
proof (cases "isUriBlackListed lib uri")
  case (Inl e)
  then show ?thesis
    by (auto simp: disposableValidateNext_def isReport_def intro!: extends_act)
next
  case (Inr ig)
  then show ?thesis by (simp add: disposableValidateNext_def subscribePipeline_extends)
qed

lemma tracked_disposableValidateNext:
  assumes "tracked s" and "validationByDoc s uri = None"
  shows "tracked (disposableValidateNext lib uri s)"
proof (cases "isUriBlackListed lib uri")
  case (Inl e)
  then show ?thesis using assms(1) by (simp add: disposableValidateNext_def tracked_def)
next
  case (Inr ig)
  then show ?thesis using assms by (simp add: disposableValidateNext_def tracked_subscribe)
qed

lemma streamNext_fields [simp]:
  "validationRequestStream (streamNext lib doc s) = Some doc"
  "blockValidation (streamNext lib doc s) = blockValidation s"
  "isValidationBusy (streamNext lib doc s) = isValidationBusy s"
  "disposed (streamNext lib doc s) = disposed s"
  "validating (streamNext lib doc s) = validating s"
  by (simp_all add: streamNext_def Let_def split_def)

lemma tracked_deliver:
  assumes "tracked s"
  shows "tracked (act as (s\<lparr> pipelines := fst (deliver doc ids (pipelines s)) \<rparr>))"
  using assms
  by (auto simp: tracked_def deliver_fst list_all_iff distinct_map_filter comp_def
           intro: distinct_map_filter)

lemma tracked_streamNext:
  assumes "tracked s"
  shows "tracked (streamNext lib doc s)"
proof -
  let ?s1 = "s\<lparr> validationRequestStream := Some doc \<rparr>"
  let ?s2 = "if \<not> disposed ?s1 \<and> \<not> disposableValidateClosed ?s1 \<and> validationByDoc ?s1 (doc_uri doc) = None
             then disposableValidateNext lib (doc_uri doc) ?s1 else ?s1"
  have 1: "tracked ?s1" using assms by (simp add: tracked_def)
  have 2: "tracked ?s2" using 1 by (simp add: tracked_disposableValidateNext)
  show ?thesis
    using tracked_deliver [OF 2, of "snd (deliver doc (map p_id (pipelines ?s1)) (pipelines ?s2))" doc "map p_id (pipelines ?s1)"]
    by (simp add: streamNext_def Let_def split_def)
qed

lemma isReport_about: "isReport a \<Longrightarrow> about U a \<and> noStart a"
  by (cases a) (simp_all add: isReport_def about_def noStart_def)

lemma about_mono: "about U a \<Longrightarrow> U \<subseteq> V \<Longrightarrow> about V a"
  by (cases a) (auto simp: about_def)

lemma about_simps [simp]:
  "about U (Log m u) = True" "about U (LogError m) = True" "about U (SendDiagnostics u d) = True"
  "about U (UnhandledError e) = True" "about U (ValidateTextDocument u) = (u \<in> U)"
  "about U (ValidatorCall u) = (u \<in> U)" "about U (ValidatorDone u) = (u \<in> U)"
  by (simp_all add: about_def)

lemma noStart_simps [simp]:
  "noStart (Log m u) = True" "noStart (LogError m) = True" "noStart (SendDiagnostics u d) = True"
  "noStart (UnhandledError e) = True" "noStart (ValidateTextDocument u) = False"
  "noStart (ValidatorCall u) = True" "noStart (ValidatorDone u) = True"
  by (simp_all add: noStart_def)

lemma validateBegin_actions: "list_all isReport (fst (validateBegin lib dsp))"
  by (simp add: validateBegin_def tryBegin_def catchThenReturn_def Let_def split_def isReport_def
        split: sum.splits)

lemma validateResume_actions:
  assumes "validateResume dsp p res = Some out"
  shows "list_all (\<lambda>a. noStart a \<and> about {doc_uri (dsp_doc dsp)} a) (fst out)"
  using assms
  by (cases p; cases res)
     (auto simp: validateResume_def tryResume_def catchThenReturn_def Let_def split_def
           split: sum.splits if_splits)

lemma closePipeline_fields [simp]:
  "validationRequestStream (closePipeline sub s) = validationRequestStream s"
  "validationByDoc (closePipeline sub s) = validationByDoc s"
  "blockValidation (closePipeline sub s) = blockValidation s"
  "isValidationBusy (closePipeline sub s) = isValidationBusy s"
  "disposed (closePipeline sub s) = disposed s"
  "disposableValidateClosed (closePipeline sub s) = disposableValidateClosed s"
  "validating (closePipeline sub s) = validating s"
  "nextSubscription (closePipeline sub s) = nextSubscription s"
  "trace (closePipeline sub s) = trace s"
  by (simp_all add: closePipeline_def)

lemma settle_fields [simp]:
  "validationRequestStream (settle sub dsp out s) = validationRequestStream s"
  "validationByDoc (settle sub dsp out s) = validationByDoc s"
  "blockValidation (settle sub dsp out s) = blockValidation s"
  "disposed (settle sub dsp out s) = disposed s"
  "disposableValidateClosed (settle sub dsp out s) = disposableValidateClosed s"
  "nextSubscription (settle sub dsp out s) = nextSubscription s"
  by (simp_all add: settle_def split: prod.splits Completion.splits)

lemma settle_pipelines:
  "pipelines (settle sub dsp out s) = pipelines s
   \<or> pipelines (settle sub dsp out s) = pipelines (closePipeline sub s)"
  by (simp add: settle_def split: prod.splits Completion.splits)

lemma settle_extends:
  assumes "list_all P (fst out)" and "\<And>u d. P (SendDiagnostics u d)" and "\<And>e. P (UnhandledError e)"
  shows "extends P s (settle sub dsp out s)"
proof (cases out)
  case (Pair as r)
  show ?thesis
  proof (cases r)
    case (Returned res)
    obtain uri diagnostics where res: "res = (uri, diagnostics)" by (cases res)
    show ?thesis
      using assms Pair Returned res
      by (intro extendsI [where as = "as @ (if list_ex (\<lambda>p. p_id p = sub) (pipelines s)
                     then [SendDiagnostics uri diagnostics] else [])"])
         (simp_all add: settle_def)
  next
    case (Thrown e)
    show ?thesis
      using assms Pair Thrown
      by (intro extendsI [where as = "as @ (if list_ex (\<lambda>p. p_id p = sub) (pipelines s)
                     then [UnhandledError e] else [])"])
         (simp_all add: settle_def)
  next
    case (Waits p)
    show ?thesis
      using assms Pair Waits
      by (intro extendsI [where as = as]) (simp_all add: settle_def)
  qed
qed

lemma startValidation_fields [simp]:
  "validationRequestStream (startValidation lib sub dsp s) = validationRequestStream s"
  "validationByDoc (startValidation lib sub dsp s) = validationByDoc s"
  "blockValidation (startValidation lib sub dsp s) = blockValidation s"
  "disposed (startValidation lib sub dsp s) = disposed s"
  "disposableValidateClosed (startValidation lib sub dsp s) = disposableValidateClosed s"
  "nextSubscription (startValidation lib sub dsp s) = nextSubscription s"
  by (simp_all add: startValidation_def)

lemma startValidation_pipelines:
  "pipelines (startValidation lib sub dsp s) = pipelines s
   \<or> pipelines (startValidation lib sub dsp s) = pipelines (closePipeline sub s)"
  unfolding startValidation_def
  using settle_pipelines [of sub dsp "validateBegin lib dsp"
      "act [ValidateTextDocument (doc_uri (dsp_doc dsp))] (s\<lparr> isValidationBusy := True \<rparr>)"]
  by (simp add: closePipeline_def)

lemma startValidation_extends:
  "extends (about {doc_uri (dsp_doc dsp)}) s (startValidation lib sub dsp s)"
proof -
  let ?s1 = "act [ValidateTextDocument (doc_uri (dsp_doc dsp))] (s\<lparr> isValidationBusy := True \<rparr>)"
  have 1: "extends (about {doc_uri (dsp_doc dsp)}) s ?s1"
    by (rule extends_act) simp_all
  have "list_all (about {doc_uri (dsp_doc dsp)}) (fst (validateBegin lib dsp))"
    using validateBegin_actions [of lib dsp] by (auto simp: list_all_iff dest: isReport_about)
  then have 2: "extends (about {doc_uri (dsp_doc dsp)}) ?s1 (settle sub dsp (validateBegin lib dsp) ?s1)"
    by (rule settle_extends) simp_all
  show ?thesis
    unfolding startValidation_def using 1 2 by (rule extends_trans)
qed

lemma afterDebounce_fields [simp]:
  "validationRequestStream (afterDebounce lib sub dsp s) = validationRequestStream s"
  "validationByDoc (afterDebounce lib sub dsp s) = validationByDoc s"
  "blockValidation (afterDebounce lib sub dsp s) = blockValidation s"
  "disposed (afterDebounce lib sub dsp s) = disposed s"
  "disposableValidateClosed (afterDebounce lib sub dsp s) = disposableValidateClosed s"
  "nextSubscription (afterDebounce lib sub dsp s) = nextSubscription s"
  by (simp_all add: afterDebounce_def Let_def)

lemma afterDebounce_pipelines:
  "pipelines (afterDebounce lib sub dsp s) = pipelines s
   \<or> pipelines (afterDebounce lib sub dsp s) = pipelines (closePipeline sub s)"
  using startValidation_pipelines [of lib sub dsp
      "act [Log ''blocked? false'' (doc_uri (dsp_doc dsp))] s"]
  by (simp add: afterDebounce_def Let_def closePipeline_def)

lemma afterDebounce_extends:
  "extends (about (if blockValidation s (doc_uri (dsp_doc dsp)) = None then {doc_uri (dsp_doc dsp)} else {}))
     s (afterDebounce lib sub dsp s)"
proof -
  let ?u = "doc_uri (dsp_doc dsp)"
  let ?s1 = "act [Log (if blockValidation s ?u \<noteq> None then ''blocked? true'' else ''blocked? false'') ?u] s"
  let ?U = "if blockValidation s ?u = None then {?u} else {}"
  have 1: "extends (about ?U) s ?s1"
    by (rule extends_act) simp_all
  show ?thesis
  proof (cases "blockValidation s ?u = None")
    case True
    have "extends (about {?u}) ?s1 (startValidation lib sub dsp ?s1)"
      by (rule startValidation_extends)
    then have "extends (about ?U) s (startValidation lib sub dsp ?s1)"
      using 1 True by (auto intro: extends_trans)
    then show ?thesis using True by (simp add: afterDebounce_def Let_def)
  next
    case False
    then show ?thesis using 1 by (simp add: afterDebounce_def Let_def)
  qed
qed

lemma updatePipeline_fields [simp]:
  "validationRequestStream (updatePipeline sub f s) = validationRequestStream s"
  "validationByDoc (updatePipeline sub f s) = validationByDoc s"
  "blockValidation (updatePipeline sub f s) = blockValidation s"
  "isValidationBusy (updatePipeline sub f s) = isValidationBusy s"
  "disposed (updatePipeline sub f s) = disposed s"
  "disposableValidateClosed (updatePipeline sub f s) = disposableValidateClosed s"
  "validating (updatePipeline sub f s) = validating s"
  "nextSubscription (updatePipeline sub f s) = nextSubscription s"
  "trace (updatePipeline sub f s) = trace s"
  by (simp_all add: updatePipeline_def)

lemma find_Some_set: "find P xs = Some x \<Longrightarrow> x \<in> set xs \<and> P x"
  by (induction xs) (auto split: if_splits)

lemma timerFires_extends: "extends (about (debounced s)) s (timerFires lib sub s)"
proof (cases "find (\<lambda>p. p_id p = sub) (pipelines s)")
  case None
  then show ?thesis by (simp add: timerFires_def)
next
  case (Some p)
  then have p: "p \<in> set (pipelines s)" by (auto dest: find_Some_set)
  show ?thesis
  proof (cases "p_debounce p")
    case None
    then show ?thesis using Some by (simp add: timerFires_def)
  next
    case (Some dd)
    obtain dsp delay where dd: "dd = (dsp, delay)" by (cases dd)
    let ?s1 = "updatePipeline sub (\<lambda>p. p\<lparr> p_debounce := None \<rparr>) s"
    let ?u = "doc_uri (dsp_doc dsp)"
    have sub: "(if blockValidation s ?u = None then {?u} else {}) \<subseteq> debounced s"
      using p Some dd by (auto simp: debounced_def)
    have "extends (about (if blockValidation ?s1 ?u = None then {?u} else {})) ?s1 (afterDebounce lib sub dsp ?s1)"
      by (rule afterDebounce_extends)
    then have "extends (about (debounced s)) ?s1 (afterDebounce lib sub dsp ?s1)"
      using sub by (auto intro: extends_weaken about_mono)
    moreover have "extends (about (debounced s)) s ?s1"
      by (rule extends_trace_eq) simp
    ultimately have "extends (about (debounced s)) s (afterDebounce lib sub dsp ?s1)"
      by (auto intro: extends_trans)
    then show ?thesis
      using \<open>find (\<lambda>p. p_id p = sub) (pipelines s) = Some p\<close> Some dd
      by (simp add: timerFires_def Let_def extends_trace_eq)
  qed
qed

lemma resolved_extends:
  "extends (\<lambda>a. noStart a \<and> about (validatingUris s) a) s (resolved i res s)"
proof (cases "i < length (validating s)")
  case False
  then show ?thesis by (simp add: resolved_def)
next
  case True
  let ?v = "validating s ! i"
  let ?P = "\<lambda>a. noStart a \<and> about (validatingUris s) a"
  have vin: "doc_uri (dsp_doc (v_dsp ?v)) \<in> validatingUris s"
    using True by (auto simp: validatingUris_def)
  show ?thesis
  proof (cases "validateResume (v_dsp ?v) (v_point ?v) res")
    case None
    then show ?thesis using True by (simp add: resolved_def Let_def)
  next
    case (Some out)
    let ?s1 = "s\<lparr> validating := take i (validating s) @ drop (Suc i) (validating s) \<rparr>"
    have "list_all ?P (fst out)"
      using validateResume_actions [OF Some] vin
      by (auto simp: list_all_iff intro: about_mono)
    then have "extends ?P ?s1 (settle (v_sub ?v) (v_dsp ?v) out ?s1)"
      by (rule settle_extends) simp_all
    moreover have "extends ?P s ?s1" by (rule extends_trace_eq) simp
    ultimately show ?thesis
      using True Some by (auto simp: resolved_def Let_def intro: extends_trans)
  qed
qed

lemma settingsResolved_extends: "extends (\<lambda>a. noStart a \<and> about {} a) s (settingsResolved sub i res s)"
  by (auto simp: settingsResolved_def Let_def extends_trace_eq intro!: extends_act
           split: option.splits sum.splits)

lemma streamNext_extends: "extends isReport s (streamNext lib doc s)"
proof -
  let ?s1 = "s\<lparr> validationRequestStream := Some doc \<rparr>"
  let ?s2 = "if \<not> disposed ?s1 \<and> \<not> disposableValidateClosed ?s1 \<and> validationByDoc ?s1 (doc_uri doc) = None
             then disposableValidateNext lib (doc_uri doc) ?s1 else ?s1"
  have 1: "extends isReport s ?s1" by (rule extends_trace_eq) simp
  have 2: "extends isReport ?s1 ?s2" by (simp add: disposableValidateNext_extends)
  have 3: "extends isReport ?s2 (streamNext lib doc s)"
    unfolding streamNext_def Let_def split_def
    by (rule extends_act) (simp_all add: deliver_snd)
  show ?thesis using 1 2 3 by (blast intro: extends_trans)
qed

lemma fold_streamNext_extends: "extends isReport s (fold (streamNext lib) docs s)"
proof (induction docs arbitrary: s)
  case Nil
  show ?case by simp
next
  case (Cons d docs)
  show ?case using streamNext_extends [where s = s and doc = d and lib = lib] Cons [of "streamNext lib d s"]
    by (auto intro: extends_trans)
qed

lemma step_extends_other:
  assumes "\<And>sub. e \<noteq> TimerFires sub" and "\<And>i res. e \<noteq> AwaitResolved i res"
  shows "extends (\<lambda>a. noStart a \<and> about {} a) s (step lib s e)"
proof -
  have L: "extends isReport s s' \<Longrightarrow> extends (\<lambda>a. noStart a \<and> about {} a) s s'" for s'
    by (erule extends_weaken) (simp add: isReport_about)
  show ?thesis
  proof (cases e)
    case (DidChangeContent d)
    then show ?thesis by (simp add: L streamNext_extends)
  next
    case (WillSave d)
    then show ?thesis
      by (auto simp: onWillSave_def intro!: extendsI [where as = "[Log ''onWillSave'' (doc_uri d)]"])
  next
    case (DidSave d)
    have "extends isReport s ((act [Log ''onDidSave'' (doc_uri d)] s)\<lparr> blockValidation := (blockValidation s)(doc_uri d := None) \<rparr>)"
      by (rule extendsI [where as = "[Log ''onDidSave'' (doc_uri d)]"]) (simp_all add: isReport_def)
    then have "extends isReport s (onDidSave lib d s)"
      unfolding onDidSave_def using streamNext_extends by (blast intro: extends_trans)
    then show ?thesis using DidSave by (simp add: L)
  next
    case (DidClose d)
    then show ?thesis
      by (auto simp: onDidClose_def Let_def intro!: extends_act split: option.splits)
  next
    case (ValidateAll docs)
    have "extends isReport s (act [Log ''Validate all documents'' []] s)"
      by (rule extends_act) (simp_all add: isReport_def)
    then have "extends isReport s (validateAll lib docs s)"
      unfolding validateAll_def using fold_streamNext_extends by (blast intro: extends_trans)
    then show ?thesis using ValidateAll by (simp add: L)
  next
    case Shutdown
    then show ?thesis by (simp add: onShutdown_def extends_trace_eq)
  next
    case (SettingsResolved sub i res)
    then show ?thesis by (simp add: settingsResolved_extends)
  next
    case (TimerFires sub)
    then show ?thesis using assms by simp
  next
    case (AwaitResolved i res)
    then show ?thesis using assms by simp
  qed
qed

lemma step_extends_about:
  "extends (about (debounced s \<union> validatingUris s)) s (step lib s e)"
proof (cases "(\<exists>sub. e = TimerFires sub) \<or> (\<exists>i res. e = AwaitResolved i res)")
  case True
  then consider (T) sub where "e = TimerFires sub" | (R) i res where "e = AwaitResolved i res"
    by auto
  then show ?thesis
  proof cases
    case T
    have "extends (about (debounced s)) s (step lib s e)"
      using T timerFires_extends by simp
    then show ?thesis by (rule extends_weaken) (auto intro: about_mono)
  next
    case R
    have "extends (\<lambda>a. noStart a \<and> about (validatingUris s) a) s (step lib s e)"
      using R resolved_extends by simp
    then show ?thesis by (rule extends_weaken) (auto intro: about_mono)
  qed
next
  case False
  then have "extends (\<lambda>a. noStart a \<and> about {} a) s (step lib s e)"
    by (intro step_extends_other) auto
  then show ?thesis by (rule extends_weaken) (auto intro: about_mono)
qed

lemma step_extends_start:
  "extends (\<lambda>a. a = ValidateTextDocument u \<longrightarrow> u \<in> debounced s) s (step lib s e)"
proof (cases "(\<exists>sub. e = TimerFires sub) \<or> (\<exists>i res. e = AwaitResolved i res)")
  case True
  then consider (T) sub where "e = TimerFires sub" | (R) i res where "e = AwaitResolved i res"
    by auto
  then show ?thesis
  proof cases
    case T
    have "extends (about (debounced s)) s (step lib s e)"
      using T timerFires_extends by simp
    then show ?thesis by (rule extends_weaken) auto
  next
    case R
    have "extends (\<lambda>a. noStart a \<and> about (validatingUris s) a) s (step lib s e)"
      using R resolved_extends by simp
    then show ?thesis by (rule extends_weaken) auto
  qed
next
  case False
  then have "extends (\<lambda>a. noStart a \<and> about {} a) s (step lib s e)"
    by (intro step_extends_other) auto
  then show ?thesis by (rule extends_weaken) auto
qed

lemma timerFires_fields [simp]:
  "validationRequestStream (timerFires lib sub s) = validationRequestStream s"
  "validationByDoc (timerFires lib sub s) = validationByDoc s"
  "blockValidation (timerFires lib sub s) = blockValidation s"
  "disposed (timerFires lib sub s) = disposed s"
  "disposableValidateClosed (timerFires lib sub s) = disposableValidateClosed s"
  "nextSubscription (timerFires lib sub s) = nextSubscription s"
  by (simp_all add: timerFires_def Let_def split: option.splits prod.splits)

lemma timerFires_pipelines:
  "pipelines (timerFires lib sub s) = pipelines s
   \<or> pipelines (timerFires lib sub s) = pipelines (updatePipeline sub (\<lambda>p. p\<lparr> p_debounce := None \<rparr>) s)
   \<or> pipelines (timerFires lib sub s)
       = pipelines (closePipeline sub (updatePipeline sub (\<lambda>p. p\<lparr> p_debounce := None \<rparr>) s))"
proof (cases "find (\<lambda>p. p_id p = sub) (pipelines s)")
  case None
  then show ?thesis by (simp add: timerFires_def)
next
  case (Some p)
  show ?thesis
  proof (cases "p_debounce p")
    case None
    then show ?thesis using Some by (simp add: timerFires_def)
  next
    case (Some dd)
    obtain dsp delay where dd: "dd = (dsp, delay)" by (cases dd)
    show ?thesis
      using \<open>find (\<lambda>p. p_id p = sub) (pipelines s) = Some p\<close> Some dd
        afterDebounce_pipelines [of lib sub dsp "updatePipeline sub (\<lambda>p. p\<lparr> p_debounce := None \<rparr>) s"]
      by (auto simp: timerFires_def Let_def)
  qed
qed

lemma settingsResolved_fields [simp]:
  "validationRequestStream (settingsResolved sub i res s) = validationRequestStream s"
  "validationByDoc (settingsResolved sub i res s) = validationByDoc s"
  "blockValidation (settingsResolved sub i res s) = blockValidation s"
  "isValidationBusy (settingsResolved sub i res s) = isValidationBusy s"
  "disposed (settingsResolved sub i res s) = disposed s"
  "disposableValidateClosed (settingsResolved sub i res s) = disposableValidateClosed s"
  "validating (settingsResolved sub i res s) = validating s"
  "nextSubscription (settingsResolved sub i res s) = nextSubscription s"
  by (simp_all add: settingsResolved_def Let_def split: option.splits sum.splits)

lemma resolved_fields [simp]:
  "validationRequestStream (resolved i res s) = validationRequestStream s"
  "validationByDoc (resolved i res s) = validationByDoc s"
  "blockValidation (resolved i res s) = blockValidation s"
  "disposed (resolved i res s) = disposed s"
  "disposableValidateClosed (resolved i res s) = disposableValidateClosed s"
  "nextSubscription (resolved i res s) = nextSubscription s"
  by (simp_all add: resolved_def Let_def split: option.splits)

lemma resolved_pipelines:
  "pipelines (resolved i res s) = pipelines s
   \<or> (\<exists>sub. pipelines (resolved i res s) = pipelines (closePipeline sub s))"
proof (cases "i < length (validating s)")
  case False
  then show ?thesis by (simp add: resolved_def)
next
  case True
  let ?v = "validating s ! i"
  show ?thesis
  proof (cases "validateResume (v_dsp ?v) (v_point ?v) res")
    case None
    then show ?thesis using True by (simp add: resolved_def Let_def)
  next
    case (Some out)
    let ?s1 = "s\<lparr> validating := take i (validating s) @ drop (Suc i) (validating s) \<rparr>"
    from settle_pipelines [of "v_sub ?v" "v_dsp ?v" out ?s1]
    have "pipelines (settle (v_sub ?v) (v_dsp ?v) out ?s1) = pipelines s
      \<or> pipelines (settle (v_sub ?v) (v_dsp ?v) out ?s1) = pipelines (closePipeline (v_sub ?v) s)"
      by (simp add: closePipeline_def)
    then show ?thesis using True Some by (auto simp: resolved_def Let_def)
  qed
qed

lemma fold_streamNext_fields [simp]:
  "blockValidation (fold (streamNext lib) docs s) = blockValidation s"
  "isValidationBusy (fold (streamNext lib) docs s) = isValidationBusy s"
  "disposed (fold (streamNext lib) docs s) = disposed s"
  "validating (fold (streamNext lib) docs s) = validating s"
  by (induction docs arbitrary: s; simp)+

lemma onDidClose_fields [simp]:
  "blockValidation (onDidClose d s) = blockValidation s"
  "isValidationBusy (onDidClose d s) = isValidationBusy s"
  "disposed (onDidClose d s) = disposed s"
  "disposableValidateClosed (onDidClose d s) = disposableValidateClosed s"
  "validating (onDidClose d s) = validating s"
  "nextSubscription (onDidClose d s) = nextSubscription s"
  by (simp_all add: onDidClose_def Let_def split: option.splits)

lemma onShutdown_fields [simp]:
  "blockValidation (onShutdown s) = blockValidation s"
  "isValidationBusy (onShutdown s) = isValidationBusy s"
  "validating (onShutdown s) = validating s"
  "pipelines (onShutdown s) = []"
  by (simp_all add: onShutdown_def)

lemma onWillSave_fields [simp]:
  "blockValidation (onWillSave d s) = (blockValidation s)(doc_uri d \<mapsto> doc_version d)"
  "isValidationBusy (onWillSave d s) = isValidationBusy s"
  "disposed (onWillSave d s) = disposed s"
  "disposableValidateClosed (onWillSave d s) = disposableValidateClosed s"
  "validating (onWillSave d s) = validating s"
  "pipelines (onWillSave d s) = pipelines s"
  "validationByDoc (onWillSave d s) = validationByDoc s"
  "nextSubscription (onWillSave d s) = nextSubscription s"
  by (simp_all add: onWillSave_def)

lemma onDidSave_fields [simp]:
  "blockValidation (onDidSave lib d s) = (blockValidation s)(doc_uri d := None)"
  "validationRequestStream (onDidSave lib d s) = Some d"
  "isValidationBusy (onDidSave lib d s) = isValidationBusy s"
  "disposed (onDidSave lib d s) = disposed s"
  "validating (onDidSave lib d s) = validating s"
  by (simp_all add: onDidSave_def)

lemma validateAll_fields [simp]:
  "blockValidation (validateAll lib docs s) = blockValidation s"
  "isValidationBusy (validateAll lib docs s) = isValidationBusy s"
  "disposed (validateAll lib docs s) = disposed s"
  "validating (validateAll lib docs s) = validating s"
  by (simp_all add: validateAll_def)

lemma step_keeps_block:
  assumes "blockValidation s u \<noteq> None" and "\<not> isDidSaveOf u e"
  shows "blockValidation (step lib s e) u \<noteq> None"
  using assms by (cases e) (auto simp: isDidSaveOf_def)

lemma step_blocked_no_start:
  assumes "blockValidation s u \<noteq> None"
  shows "count_list (trace (step lib s e)) (ValidateTextDocument u) = count_list (trace s) (ValidateTextDocument u)"
proof -
  have n: "u \<notin> debounced s" using assms by (simp add: debounced_def)
  have e: "extends (\<lambda>a. a = ValidateTextDocument u \<longrightarrow> u \<in> debounced s) s (step lib s e)"
    by (rule step_extends_start)
  show ?thesis by (rule extends_count [OF e]) (simp add: n)
qed

lemma run_Cons: "run lib s (e # es) = run lib (step lib s e) es"
  by (simp add: run_def)

lemma run_Nil: "run lib s [] = s"
  by (simp add: run_def)

lemma run_append: "run lib s (es @ fs) = run lib (run lib s es) fs"
  by (simp add: run_def)

lemma run_blocked:
  assumes "blockValidation s u \<noteq> None" and "list_all (\<lambda>e. \<not> isDidSaveOf u e) es"
  shows "blockValidation (run lib s es) u \<noteq> None
    \<and> count_list (trace (run lib s es)) (ValidateTextDocument u) = count_list (trace s) (ValidateTextDocument u)"
  using assms
proof (induction es arbitrary: s)
  case Nil
  then show ?case by (simp add: run_Nil)
next
  case (Cons e es)
  have b: "blockValidation (step lib s e) u \<noteq> None"
    using Cons.prems by (intro step_keeps_block) simp_all
  have c: "count_list (trace (step lib s e)) (ValidateTextDocument u) = count_list (trace s) (ValidateTextDocument u)"
    using Cons.prems by (intro step_blocked_no_start) simp
  show ?case
    using Cons.IH [OF b] Cons.prems(2) c by (simp add: run_Cons)
qed

lemma streamNext_existing:
  assumes "p \<in> set (pipelines s)" and "p_uri p = doc_uri d" and "\<not> p_ignore p"
  shows "p\<lparr> p_fetching := p_fetching p @ [d] \<rparr> \<in> set (pipelines (streamNext lib d s))"
proof -
  let ?s1 = "s\<lparr> validationRequestStream := Some d \<rparr>"
  let ?s2 = "if \<not> disposed ?s1 \<and> \<not> disposableValidateClosed ?s1 \<and> validationByDoc ?s1 (doc_uri d) = None
             then disposableValidateNext lib (doc_uri d) ?s1 else ?s1"
  let ?ids = "map p_id (pipelines ?s1)"
  obtain new where "pipelines (disposableValidateNext lib (doc_uri d) ?s1) = pipelines ?s1 @ new"
    using disposableValidateNext_pipelines by blast
  then have "p \<in> set (pipelines ?s2)" using assms(1) by auto
  moreover have "keeps d ?ids p" using assms(3) by (simp add: keeps_def)
  moreover have "received d ?ids p = p\<lparr> p_fetching := p_fetching p @ [d] \<rparr>"
    using assms(1,2) by (simp add: received_def)
  ultimately have "p\<lparr> p_fetching := p_fetching p @ [d] \<rparr> \<in> set (fst (deliver d ?ids (pipelines ?s2)))"
    unfolding deliver_fst by force
  then show ?thesis by (simp add: streamNext_def Let_def split_def)
qed

lemma onDidSave_existing:
  assumes "p \<in> set (pipelines s)" and "p_uri p = doc_uri d" and "\<not> p_ignore p"
  shows "p\<lparr> p_fetching := p_fetching p @ [d] \<rparr> \<in> set (pipelines (onDidSave lib d s))"
  unfolding onDidSave_def using assms by (intro streamNext_existing) simp_all

lemma tracked_cong:
  assumes "pipelines s' = pipelines s" and "validationByDoc s' = validationByDoc s"
    and "nextSubscription s' = nextSubscription s"
  shows "tracked s' = tracked s"
  using assms by (simp add: tracked_def)

lemma tracked_update:
  assumes "tracked s" and "\<And>p. p_id (f p) = p_id p \<and> p_uri (f p) = p_uri p"
  shows "tracked (updatePipeline sub f s)"
proof -
  have "p_id \<circ> (\<lambda>p. if p_id p = sub then f p else p) = p_id"
    by (rule ext) (simp add: assms(2))
  then show ?thesis
    using assms by (auto simp: tracked_def updatePipeline_def list_all_iff)
qed

lemma tracked_close:
  assumes "tracked s"
  shows "tracked (closePipeline sub s)"
  using assms by (auto simp: tracked_def closePipeline_def list_all_iff distinct_map_filter)

lemma tracked_settingsResolved:
  assumes "tracked s"
  shows "tracked (settingsResolved sub i res s)"
proof -
  have u: "tracked (updatePipeline sub (\<lambda>p. debounceNext dsp (p\<lparr> p_fetching := r \<rparr>)) s)" for dsp r
    using assms by (intro tracked_update) (simp_all add: debounceNext_def)
  have c: "tracked (act as (closePipeline sub s))" for as
    using tracked_close [OF assms, of sub]
    by (simp add: tracked_cong [of "act as (closePipeline sub s)" "closePipeline sub s"])
  show ?thesis
    using assms u c
    by (simp add: settingsResolved_def Let_def split: option.splits sum.splits)
qed

lemma tracked_timerFires:
  assumes "tracked s"
  shows "tracked (timerFires lib sub s)"
proof -
  let ?s1 = "updatePipeline sub (\<lambda>p. p\<lparr> p_debounce := None \<rparr>) s"
  have u: "tracked ?s1"
    using assms by (intro tracked_update) simp_all
  have c: "tracked (closePipeline sub ?s1)"
    using u by (rule tracked_close)
  from timerFires_pipelines [of lib sub s]
  consider "pipelines (timerFires lib sub s) = pipelines s"
    | "pipelines (timerFires lib sub s) = pipelines ?s1"
    | "pipelines (timerFires lib sub s) = pipelines (closePipeline sub ?s1)"
    by blast
  then show ?thesis
  proof cases
    case 1
    then show ?thesis using assms by (simp add: tracked_cong [of "timerFires lib sub s" s])
  next
    case 2
    then show ?thesis using u by (simp add: tracked_cong [of "timerFires lib sub s" ?s1])
  next
    case 3
    then show ?thesis using c by (simp add: tracked_cong [of "timerFires lib sub s" "closePipeline sub ?s1"])
  qed
qed

lemma tracked_resolved:
  assumes "tracked s"
  shows "tracked (resolved i res s)"
proof -
  from resolved_pipelines [of i res s]
  consider "pipelines (resolved i res s) = pipelines s"
    | sub where "pipelines (resolved i res s) = pipelines (closePipeline sub s)"
    by blast
  then show ?thesis
  proof cases
    case 1
    then show ?thesis using assms by (simp add: tracked_cong [of "resolved i res s" s])
  next
    case 2
    then show ?thesis
      using tracked_close [OF assms, of sub]
      by (simp add: tracked_cong [of "resolved i res s" "closePipeline sub s"])
  qed
qed

lemma tracked_onDidClose:
  assumes "tracked s"
  shows "tracked (onDidClose d s)"
proof (cases "validationByDoc s (doc_uri d)")
  case None
  then show ?thesis using assms by (simp add: onDidClose_def Let_def tracked_def)
next
  case (Some sub)
  have "\<forall>p \<in> set (pipelines s). p_uri p = doc_uri d \<longrightarrow> p_id p = sub"
    using assms Some by (auto simp: tracked_def list_all_iff)
  then show ?thesis
    using assms Some
    by (auto simp: onDidClose_def Let_def tracked_def closePipeline_def list_all_iff distinct_map_filter)
qed

lemma tracked_fold_streamNext:
  assumes "tracked s"
  shows "tracked (fold (streamNext lib) docs s)"
  using assms by (induction docs arbitrary: s) (simp_all add: tracked_streamNext)

lemma tracked_step:
  assumes "tracked s"
  shows "tracked (step lib s e)"
proof (cases e)
  case (DidChangeContent d)
  then show ?thesis using assms by (simp add: tracked_streamNext)
next
  case (WillSave d)
  then show ?thesis using assms by (simp add: tracked_cong [of "onWillSave d s" s])
next
  case (DidSave d)
  let ?s1 = "(act [Log ''onDidSave'' (doc_uri d)] s)\<lparr> blockValidation := (blockValidation s)(doc_uri d := None) \<rparr>"
  have "tracked ?s1" using assms by (simp add: tracked_def)
  then have "tracked (onDidSave lib d s)" unfolding onDidSave_def by (rule tracked_streamNext)
  then show ?thesis using DidSave assms by simp
next
  case (DidClose d)
  then show ?thesis using assms by (simp add: tracked_onDidClose)
next
  case (ValidateAll docs)
  have "tracked (act [Log ''Validate all documents'' []] s)" using assms by (simp add: tracked_def)
  then have "tracked (validateAll lib docs s)" unfolding validateAll_def by (rule tracked_fold_streamNext)
  then show ?thesis using ValidateAll assms by simp
next
  case Shutdown
  then show ?thesis by (simp add: tracked_def)
next
  case (SettingsResolved sub i res)
  then show ?thesis using assms by (simp add: tracked_settingsResolved)
next
  case (TimerFires sub)
  then show ?thesis using assms by (simp add: tracked_timerFires)
next
  case (AwaitResolved i res)
  then show ?thesis using assms by (simp add: tracked_resolved)
qed

lemma tracked_run:
  assumes "tracked s"
  shows "tracked (run lib s es)"
  using assms by (induction es arbitrary: s) (simp_all add: run_Nil run_Cons tracked_step)

lemma tracked_initial: "tracked initial"
  by (simp add: tracked_def initial_def)

lemma tracked_one_per_uri:
  assumes "tracked s"
  shows "length (filter (\<lambda>p. p_uri p = u) (pipelines s)) \<le> 1"
proof -
  have d: "distinct (map p_id (filter (\<lambda>p. p_uri p = u) (pipelines s)))"
    using assms by (simp add: tracked_def distinct_map_filter)
  have "\<forall>p \<in> set (filter (\<lambda>p. p_uri p = u) (pipelines s)). Some (p_id p) = validationByDoc s u"
    using assms by (auto simp: tracked_def list_all_iff)
  then have "set (map p_id (filter (\<lambda>p. p_uri p = u) (pipelines s))) \<subseteq> {n. Some n = validationByDoc s u}"
    by auto
  moreover have "card {n. Some n = validationByDoc s u} \<le> 1"
    by (cases "validationByDoc s u") (simp_all add: card_le_Suc0_iff_eq)
  moreover have "finite {n. Some n = validationByDoc s u}"
    by (cases "validationByDoc s u") simp_all
  ultimately have "card (set (map p_id (filter (\<lambda>p. p_uri p = u) (pipelines s)))) \<le> 1"
    by (meson card_mono le_trans)
  then show ?thesis using d by (simp add: distinct_card del: set_map)
qed

lemma pipelineNext_safe:
  assumes "pipelineSafe lib p" and "pipelineNext doc p = (Some q, as)"
  shows "pipelineSafe lib q"
  using assms by (auto simp: pipelineNext_def pipelineSafe_def split: if_splits)

lemma subscribePipeline_safe:
  assumes "list_all (pipelineSafe lib) (pipelines s)" and "ig = blackListed lib uri"
  shows "list_all (pipelineSafe lib) (pipelines (subscribePipeline ig uri s))"
proof -
  let ?p = "\<lparr> p_id = nextSubscription s, p_uri = uri, p_ignore = ig,
              p_fetching = [], p_debounce = None \<rparr>"
  have p: "pipelineSafe lib ?p" using assms(2) by (simp add: pipelineSafe_def)
  show ?thesis
  proof (cases "validationRequestStream s")
    case None
    then show ?thesis using assms(1) p by (simp add: subscribePipeline_def Let_def)
  next
    case (Some d)
    obtain q as where q: "pipelineNext d ?p = (q, as)" by (cases "pipelineNext d ?p")
    show ?thesis
    proof (cases q)
      case None
      then show ?thesis using assms(1) Some q by (simp add: subscribePipeline_def Let_def)
    next
      case (Some p')
      then have "pipelineSafe lib p'" using pipelineNext_safe [OF p] q by simp
      then show ?thesis
        using assms(1) \<open>validationRequestStream s = Some d\<close> q Some
        by (simp add: subscribePipeline_def Let_def)
    qed
  qed
qed

lemma disposableValidateNext_safe:
  assumes "list_all (pipelineSafe lib) (pipelines s)"
  shows "list_all (pipelineSafe lib) (pipelines (disposableValidateNext lib uri s))"
proof (cases "isUriBlackListed lib uri")
  case (Inl e)
  then show ?thesis using assms by (simp add: disposableValidateNext_def)
next
  case (Inr ig)
  then have "ig = blackListed lib uri" by (auto simp: blackListed_def)
  then show ?thesis
    using assms Inr by (simp add: disposableValidateNext_def subscribePipeline_safe)
qed

lemma received_safe:
  assumes "pipelineSafe lib p" and "keeps doc ids p"
  shows "pipelineSafe lib (received doc ids p)"
  using assms by (auto simp: received_def keeps_def pipelineSafe_def)

lemma deliver_safe:
  assumes "list_all (pipelineSafe lib) ps"
  shows "list_all (pipelineSafe lib) (fst (deliver doc ids ps))"
  using assms by (auto simp: deliver_fst list_all_iff received_safe)

lemma streamNext_pipelines:
  "pipelines (streamNext lib doc s) =
     fst (deliver doc (map p_id (pipelines s))
       (pipelines (if \<not> disposed s \<and> \<not> disposableValidateClosed s \<and> validationByDoc s (doc_uri doc) = None
                   then disposableValidateNext lib (doc_uri doc) (s\<lparr> validationRequestStream := Some doc \<rparr>)
                   else s\<lparr> validationRequestStream := Some doc \<rparr>)))"
  by (simp add: streamNext_def Let_def split_def)

lemma blacklistSafe_streamNext:
  assumes "blacklistSafe lib s"
  shows "blacklistSafe lib (streamNext lib doc s)"
proof -
  have "list_all (pipelineSafe lib) (pipelines (s\<lparr> validationRequestStream := Some doc \<rparr>))"
    using assms by (simp add: blacklistSafe_def)
  then have "list_all (pipelineSafe lib)
       (pipelines (if \<not> disposed s \<and> \<not> disposableValidateClosed s \<and> validationByDoc s (doc_uri doc) = None
                   then disposableValidateNext lib (doc_uri doc) (s\<lparr> validationRequestStream := Some doc \<rparr>)
                   else s\<lparr> validationRequestStream := Some doc \<rparr>))"
    by (simp add: disposableValidateNext_safe)
  then have "list_all (pipelineSafe lib) (pipelines (streamNext lib doc s))"
    unfolding streamNext_pipelines by (rule deliver_safe)
  then show ?thesis using assms by (simp add: blacklistSafe_def)
qed

lemma blacklistSafe_fold_streamNext:
  assumes "blacklistSafe lib s"
  shows "blacklistSafe lib (fold (streamNext lib) docs s)"
  using assms by (induction docs arbitrary: s) (simp_all add: blacklistSafe_streamNext)

lemma settle_validating:
  "validating (settle sub dsp out s) = validating s
   \<or> (\<exists>p. validating (settle sub dsp out s) = validating s @ [\<lparr> v_sub = sub, v_dsp = dsp, v_point = p \<rparr>])"
  by (auto simp: settle_def split: prod.splits Completion.splits)

lemma settle_busy:
  "(validating (settle sub dsp out s) = validating s
      \<and> (isValidationBusy (settle sub dsp out s) \<longrightarrow> isValidationBusy s))
   \<or> ((\<exists>p. validating (settle sub dsp out s) = validating s @ [\<lparr> v_sub = sub, v_dsp = dsp, v_point = p \<rparr>])
       \<and> isValidationBusy (settle sub dsp out s) = isValidationBusy s)"
  by (auto simp: settle_def split: prod.splits Completion.splits)

lemma startValidation_validating:
  "validating (startValidation lib sub dsp s) = validating s
   \<or> ((\<exists>p. validating (startValidation lib sub dsp s) = validating s @ [\<lparr> v_sub = sub, v_dsp = dsp, v_point = p \<rparr>])
       \<and> isValidationBusy (startValidation lib sub dsp s))"
  unfolding startValidation_def
  using settle_busy [of sub dsp "validateBegin lib dsp"
      "act [ValidateTextDocument (doc_uri (dsp_doc dsp))] (s\<lparr> isValidationBusy := True \<rparr>)"]
  by auto

lemma afterDebounce_validating:
  "validating (afterDebounce lib sub dsp s) = validating s
   \<or> ((\<exists>p. validating (afterDebounce lib sub dsp s) = validating s @ [\<lparr> v_sub = sub, v_dsp = dsp, v_point = p \<rparr>])
       \<and> isValidationBusy (afterDebounce lib sub dsp s))"
  using startValidation_validating [of lib sub dsp
      "act [Log (if blockValidation s (doc_uri (dsp_doc dsp)) \<noteq> None then ''blocked? true'' else ''blocked? false'')
              (doc_uri (dsp_doc dsp))] s"]
  by (auto simp: afterDebounce_def Let_def)

lemma closePipeline_safe:
  assumes "list_all (pipelineSafe lib) (pipelines s)"
  shows "list_all (pipelineSafe lib) (pipelines (closePipeline sub s))"
  using assms by (auto simp: closePipeline_def list_all_iff)

lemma updatePipeline_safe:
  assumes "list_all (pipelineSafe lib) (pipelines s)" and "\<And>p. pipelineSafe lib p \<Longrightarrow> pipelineSafe lib (f p)"
  shows "list_all (pipelineSafe lib) (pipelines (updatePipeline sub f s))"
  using assms by (auto simp: updatePipeline_def list_all_iff)

lemma blacklistSafe_timerFires:
  assumes "blacklistSafe lib s"
  shows "blacklistSafe lib (timerFires lib sub s)"
proof (cases "find (\<lambda>p. p_id p = sub) (pipelines s)")
  case None
  then show ?thesis using assms by (simp add: timerFires_def)
next
  case (Some p)
  then have p: "p \<in> set (pipelines s)" by (auto dest: find_Some_set)
  show ?thesis
  proof (cases "p_debounce p")
    case None
    then show ?thesis using assms Some by (simp add: timerFires_def)
  next
    case (Some dd)
    obtain dsp delay where dd: "dd = (dsp, delay)" by (cases dd)
    let ?s1 = "updatePipeline sub (\<lambda>p. p\<lparr> p_debounce := None \<rparr>) s"
    have ok: "\<not> blackListed lib (doc_uri (dsp_doc dsp))"
      using assms p Some dd by (auto simp: blacklistSafe_def list_all_iff pipelineSafe_def)
    have ps: "list_all (pipelineSafe lib) (pipelines ?s1)"
      using assms by (intro updatePipeline_safe) (auto simp: blacklistSafe_def pipelineSafe_def)
    then have s1: "blacklistSafe lib ?s1" using assms by (simp add: blacklistSafe_def)
    have pa: "list_all (pipelineSafe lib) (pipelines (afterDebounce lib sub dsp ?s1))"
      using afterDebounce_pipelines [of lib sub dsp ?s1] ps closePipeline_safe [OF ps, of sub] by auto
    have "blacklistSafe lib (afterDebounce lib sub dsp ?s1)"
      using afterDebounce_validating [of lib sub dsp ?s1] s1 ok pa
      by (auto simp: blacklistSafe_def)
    then show ?thesis
      using \<open>find (\<lambda>p. p_id p = sub) (pipelines s) = Some p\<close> Some dd s1
      by (simp add: timerFires_def Let_def)
  qed
qed

lemma blacklistSafe_settingsResolved:
  assumes "blacklistSafe lib s"
  shows "blacklistSafe lib (settingsResolved sub i res s)"
proof (cases "find (\<lambda>p. p_id p = sub) (pipelines s)")
  case None
  then show ?thesis using assms by (simp add: settingsResolved_def)
next
  case (Some p)
  then have p: "p \<in> set (pipelines s)" "p_id p = sub" by (auto dest: find_Some_set)
  show ?thesis
  proof (cases "i < length (p_fetching p)")
    case False
    then show ?thesis using assms Some by (simp add: settingsResolved_def)
  next
    case True
    let ?doc = "p_fetching p ! i"
    let ?rest = "take i (p_fetching p) @ drop (Suc i) (p_fetching p)"
    show ?thesis
    proof (cases res)
      case (Inl e)
      have "list_all (pipelineSafe lib) (pipelines (closePipeline sub s))"
        using assms by (auto simp: closePipeline_def blacklistSafe_def list_all_iff)
      then show ?thesis
        using assms Some True Inl by (simp add: settingsResolved_def Let_def blacklistSafe_def)
    next
      case (Inr settings)
      let ?f = "\<lambda>q. debounceNext \<lparr> dsp_doc = ?doc, dsp_settings = settings \<rparr> (q\<lparr> p_fetching := ?rest \<rparr>)"
      have doc: "\<not> blackListed lib (doc_uri ?doc)"
        using assms p(1) True by (auto simp: blacklistSafe_def list_all_iff pipelineSafe_def)
      have sp: "pipelineSafe lib p" using assms p(1) by (simp add: blacklistSafe_def list_all_iff)
      have rest: "list_all (\<lambda>d. \<not> blackListed lib (doc_uri d)) ?rest"
        using sp by (auto simp: pipelineSafe_def list_all_iff dest: in_set_takeD in_set_dropD)
      have f: "pipelineSafe lib (?f q)" if "pipelineSafe lib q" for q
        using that rest doc by (simp add: pipelineSafe_def debounceNext_def)
      have "list_all (pipelineSafe lib) (pipelines (updatePipeline sub ?f s))"
        using assms f by (intro updatePipeline_safe) (simp_all add: blacklistSafe_def)
      then show ?thesis
        using assms Some True Inr
        by (simp add: settingsResolved_def Let_def blacklistSafe_def)
    qed
  qed
qed

lemma blacklistSafe_resolved:
  assumes "blacklistSafe lib s"
  shows "blacklistSafe lib (resolved i res s)"
proof (cases "i < length (validating s)")
  case False
  then show ?thesis using assms by (simp add: resolved_def)
next
  case True
  let ?v = "validating s ! i"
  show ?thesis
  proof (cases "validateResume (v_dsp ?v) (v_point ?v) res")
    case None
    then show ?thesis using assms True by (simp add: resolved_def Let_def)
  next
    case (Some out)
    let ?s1 = "s\<lparr> validating := take i (validating s) @ drop (Suc i) (validating s) \<rparr>"
    have v: "\<not> blackListed lib (doc_uri (dsp_doc (v_dsp ?v)))"
      using assms True by (auto simp: blacklistSafe_def list_all_iff)
    have r: "list_all (\<lambda>v. \<not> blackListed lib (doc_uri (dsp_doc (v_dsp v)))) (validating ?s1)"
      using assms by (auto simp: blacklistSafe_def list_all_iff dest: in_set_takeD in_set_dropD)
    have ps: "list_all (pipelineSafe lib) (pipelines ?s1)"
      using assms by (simp add: blacklistSafe_def)
    have pa: "list_all (pipelineSafe lib) (pipelines (settle (v_sub ?v) (v_dsp ?v) out ?s1))"
      using settle_pipelines [of "v_sub ?v" "v_dsp ?v" out ?s1] ps closePipeline_safe [OF ps, of "v_sub ?v"]
      by auto
    have "blacklistSafe lib (settle (v_sub ?v) (v_dsp ?v) out ?s1)"
      using settle_validating [of "v_sub ?v" "v_dsp ?v" out ?s1] r v pa
      by (auto simp: blacklistSafe_def)
    then show ?thesis using True Some by (simp add: resolved_def Let_def)
  qed
qed

lemma blacklistSafe_step:
  assumes "blacklistSafe lib s"
  shows "blacklistSafe lib (step lib s e)"
proof (cases e)
  case (DidChangeContent d)
  then show ?thesis using assms by (simp add: blacklistSafe_streamNext)
next
  case (WillSave d)
  then show ?thesis using assms by (simp add: blacklistSafe_def)
next
  case (DidSave d)
  let ?s1 = "(act [Log ''onDidSave'' (doc_uri d)] s)\<lparr> blockValidation := (blockValidation s)(doc_uri d := None) \<rparr>"
  have "blacklistSafe lib ?s1" using assms by (simp add: blacklistSafe_def)
  then have "blacklistSafe lib (onDidSave lib d s)" unfolding onDidSave_def by (rule blacklistSafe_streamNext)
  then show ?thesis using DidSave assms by simp
next
  case (DidClose d)
  then show ?thesis using assms
    by (auto simp: onDidClose_def Let_def blacklistSafe_def closePipeline_def list_all_iff split: option.splits)
next
  case (ValidateAll docs)
  have "blacklistSafe lib (act [Log ''Validate all documents'' []] s)" using assms by (simp add: blacklistSafe_def)
  then have "blacklistSafe lib (validateAll lib docs s)" unfolding validateAll_def by (rule blacklistSafe_fold_streamNext)
  then show ?thesis using ValidateAll assms by simp
next
  case Shutdown
  then show ?thesis using assms by (simp add: blacklistSafe_def)
next
  case (SettingsResolved sub i res)
  then show ?thesis using assms by (simp add: blacklistSafe_settingsResolved)
next
  case (TimerFires sub)
  then show ?thesis using assms by (simp add: blacklistSafe_timerFires)
next
  case (AwaitResolved i res)
  then show ?thesis using assms by (simp add: blacklistSafe_resolved)
qed

lemma blacklisted_step_quiet:
  assumes "blacklistSafe lib s" and "blackListed lib u"
  shows "extends (\<lambda>a. a \<noteq> ValidateTextDocument u \<and> a \<noteq> ValidatorCall u) s (step lib s e)"
proof -
  have "u \<notin> debounced s"
    using assms by (auto simp: debounced_def blacklistSafe_def list_all_iff pipelineSafe_def)
  moreover have "u \<notin> validatingUris s"
    using assms by (auto simp: validatingUris_def blacklistSafe_def list_all_iff)
  ultimately have "\<not> about (debounced s \<union> validatingUris s) (ValidateTextDocument u)"
    "\<not> about (debounced s \<union> validatingUris s) (ValidatorCall u)" by simp_all
  then show ?thesis
    by (intro extends_weaken [OF step_extends_about]) auto
qed

lemma blacklisted_run:
  assumes "blacklistSafe lib s" and "blackListed lib u"
  shows "blacklistSafe lib (run lib s es)
    \<and> extends (\<lambda>a. a \<noteq> ValidateTextDocument u \<and> a \<noteq> ValidatorCall u) s (run lib s es)"
  using assms(1)
proof (induction es arbitrary: s)
  case Nil
  then show ?case by (simp add: run_Nil)
next
  case (Cons e es)
  have 1: "blacklistSafe lib (step lib s e)" using Cons.prems by (rule blacklistSafe_step)
  have 2: "extends (\<lambda>a. a \<noteq> ValidateTextDocument u \<and> a \<noteq> ValidatorCall u) s (step lib s e)"
    using Cons.prems assms(2) by (rule blacklisted_step_quiet)
  show ?case using Cons.IH [OF 1] 2 by (auto simp: run_Cons intro: extends_trans)
qed

lemma blacklistSafe_initial: "blacklistSafe lib initial"
  by (simp add: blacklistSafe_def initial_def)

lemma debounceEmits_RxJS7 [simp]: "debounceEmits RxJS7 (filterNotBusy busy timer) = (\<not> busy)"
  by (simp add: debounceEmits_def filterNotBusy_def timer_def)

lemma debounceEmits_RxJS6 [simp]: "debounceEmits RxJS6 (filterNotBusy busy timer) = True"
  by (simp add: debounceEmits_def filterNotBusy_def timer_def)

lemma gate_timerFires:
  assumes "gate s" and "rxjs lib = RxJS7"
  shows "gate (timerFires lib sub s)"
proof (cases "find (\<lambda>p. p_id p = sub) (pipelines s)")
  case None
  then show ?thesis using assms by (simp add: timerFires_def)
next
  case (Some p)
  show ?thesis
  proof (cases "p_debounce p")
    case None
    then show ?thesis using assms Some by (simp add: timerFires_def)
  next
    case (Some dd)
    obtain dsp delay where dd: "dd = (dsp, delay)" by (cases dd)
    let ?s1 = "updatePipeline sub (\<lambda>p. p\<lparr> p_debounce := None \<rparr>) s"
    have s1: "gate ?s1" using assms by (simp add: gate_def)
    show ?thesis
    proof (cases "isValidationBusy s")
      case True
      then show ?thesis
        using \<open>find (\<lambda>p. p_id p = sub) (pipelines s) = Some p\<close> Some dd s1 assms(2)
        by (simp add: timerFires_def Let_def)
    next
      case False
      then have e: "validating ?s1 = []" using assms by (auto simp: gate_def)
      have "gate (afterDebounce lib sub dsp ?s1)"
        using afterDebounce_validating [of lib sub dsp ?s1] e by (auto simp: gate_def)
      then show ?thesis
        using \<open>find (\<lambda>p. p_id p = sub) (pipelines s) = Some p\<close> Some dd False assms(2)
        by (simp add: timerFires_def Let_def)
    qed
  qed
qed

lemma gate_resolved:
  assumes "gate s"
  shows "gate (resolved i res s)"
proof (cases "i < length (validating s)")
  case False
  then show ?thesis using assms by (simp add: resolved_def)
next
  case True
  let ?v = "validating s ! i"
  show ?thesis
  proof (cases "validateResume (v_dsp ?v) (v_point ?v) res")
    case None
    then show ?thesis using assms True by (simp add: resolved_def Let_def)
  next
    case (Some out)
    let ?s1 = "s\<lparr> validating := take i (validating s) @ drop (Suc i) (validating s) \<rparr>"
    have "length (validating s) = 1" "i = 0" using assms True by (auto simp: gate_def)
    then have e: "validating ?s1 = []" by simp
    have b: "isValidationBusy ?s1" using assms True by (auto simp: gate_def)
    have "gate (settle (v_sub ?v) (v_dsp ?v) out ?s1)"
      using settle_busy [of "v_sub ?v" "v_dsp ?v" out ?s1] e b by (auto simp: gate_def)
    then show ?thesis using True Some by (simp add: resolved_def Let_def)
  qed
qed

lemma gate_step:
  assumes "gate s" and "rxjs lib = RxJS7"
  shows "gate (step lib s e)"
  using assms
  by (cases e) (simp_all add: gate_timerFires gate_resolved, simp_all add: gate_def)

lemma gate_run:
  assumes "gate s" and "rxjs lib = RxJS7"
  shows "gate (run lib s es)"
  using assms by (induction es arbitrary: s) (simp_all add: run_Nil run_Cons gate_step)

lemma gate_initial: "gate initial"
  by (simp add: gate_def initial_def)

section \<open>One pipeline for each document\<close>

lemma streamNext_subscriptions:
  "nextSubscription (streamNext lib d s) =
     (if \<not> disposed s \<and> \<not> disposableValidateClosed s \<and> validationByDoc s (doc_uri d) = None
         \<and> \<not> isl (uriScheme lib (doc_uri d))
      then nextSubscription s + 1 else nextSubscription s)"
  "validationByDoc (streamNext lib d s) =
     (if \<not> disposed s \<and> \<not> disposableValidateClosed s \<and> validationByDoc s (doc_uri d) = None
         \<and> \<not> isl (uriScheme lib (doc_uri d))
      then (validationByDoc s)(doc_uri d \<mapsto> nextSubscription s) else validationByDoc s)"
  by (cases "uriScheme lib (doc_uri d)";
      simp add: streamNext_def Let_def split_def disposableValidateNext_def isUriBlackListed_def
        doesUriMatchAnyScheme_def)+

text \<open>
  C8.  After any events, at most one open pipeline has a given URI.  A change event for a
  URI that has an entry in \<^verbatim>\<open>validationByDoc\<close> creates no subscription and leaves the map as
  it is; a subscription is created, and entered in the map, only when the URI has no entry
  (and \<^verbatim>\<open>disposableValidate\<close> is open and the URI can be parsed; when it cannot, nothing is
  created; nor is anything created once \<^verbatim>\<open>disposableValidate\<close> is closed or disposed of).
\<close>

theorem C8_one_pipeline_per_uri:
  "length (filter (\<lambda>p. p_uri p = u) (pipelines (run lib initial es))) \<le> 1
   \<and> (validationByDoc s (doc_uri d) \<noteq> None \<longrightarrow>
        nextSubscription (step lib s (DidChangeContent d)) = nextSubscription s
        \<and> validationByDoc (step lib s (DidChangeContent d)) = validationByDoc s)
   \<and> (\<not> disposed s \<and> \<not> disposableValidateClosed s \<and> validationByDoc s (doc_uri d) = None
        \<and> \<not> isl (uriScheme lib (doc_uri d)) \<longrightarrow>
        nextSubscription (step lib s (DidChangeContent d)) = nextSubscription s + 1
        \<and> validationByDoc (step lib s (DidChangeContent d)) = (validationByDoc s)(doc_uri d \<mapsto> nextSubscription s))
   \<and> (isl (uriScheme lib (doc_uri d)) \<or> disposed s \<or> disposableValidateClosed s \<longrightarrow>
        nextSubscription (step lib s (DidChangeContent d)) = nextSubscription s
        \<and> validationByDoc (step lib s (DidChangeContent d)) = validationByDoc s)"
proof -
  have "tracked (run lib initial es)" using tracked_initial by (rule tracked_run)
  then have "length (filter (\<lambda>p. p_uri p = u) (pipelines (run lib initial es))) \<le> 1"
    by (rule tracked_one_per_uri)
  then show ?thesis by (simp add: streamNext_subscriptions)
qed

theorem C8_witness:
  "length (filter (\<lambda>p. p_uri p = ''file:///a.txt'') (pipelines (run (exampleLibraries RxJS6) initial rapidEvents))) \<le> 1
   \<and> map (\<lambda>p. (p_id p, p_uri p, length (p_fetching p))) (pipelines (run (exampleLibraries RxJS6) initial rapidEvents))
       = [(0, ''file:///a.txt'', 4), (1, ''file:///b.txt'', 1)]
   \<and> nextSubscription (run (exampleLibraries RxJS6) initial rapidEvents) = 2"
proof -
  have e: "map (\<lambda>p. (p_id p, p_uri p, length (p_fetching p))) (pipelines (run (exampleLibraries RxJS6) initial rapidEvents))
       = [(0, ''file:///a.txt'', 4), (1, ''file:///b.txt'', 1)]"
    "nextSubscription (run (exampleLibraries RxJS6) initial rapidEvents) = 2"
    by code_simp+
  show ?thesis
    using C8_one_pipeline_per_uri [of "''file:///a.txt''" "exampleLibraries RxJS6" rapidEvents initial docA] e
    by simp
qed

section \<open>Blacklisted schemes\<close>

lemma blacklisted_iff:
  "uriScheme lib u = Inr scheme \<Longrightarrow> blackListed lib u = (scheme \<in> set schemeBlackList)"
  by (auto simp: blackListed_def isUriBlackListed_def doesUriMatchAnyScheme_def findIndex_nonneg)

lemma first_blacklisted_event:
  assumes "blackListed lib (doc_uri d)"
  shows "step lib initial (DidChangeContent d) =
     initial\<lparr> validationRequestStream := Some d, validationByDoc := [doc_uri d \<mapsto> 0],
              nextSubscription := 1, trace := [Log ''Ignoring:'' (doc_uri d)] \<rparr>"
  using assms
  by (simp add: initial_def streamNext_def disposableValidateNext_def blackListed_def
        subscribePipeline_def pipelineNext_def act_def Let_def)

text \<open>
  C5.  For a URI whose scheme, as \<^verbatim>\<open>Uri.parse\<close> reads it, is one of \<^verbatim>\<open>git\<close>, \<^verbatim>\<open>output\<close>,
  \<^verbatim>\<open>debug\<close>, \<^verbatim>\<open>vscode\<close>, no run of the server from its initial state ever calls the
  analyzer, or even the server's \<^verbatim>\<open>validateTextDocument\<close>, for that URI.  The first event
  for such a document subscribes a pipeline that takes the document, logs that it is
  ignored and completes; its entry stays in \<^verbatim>\<open>validationByDoc\<close>, which keeps later events of
  the document away.
\<close>

theorem C5_blacklisted_never_validated:
  assumes "uriScheme lib u = Inr scheme" and "scheme \<in> set schemeBlackList"
  shows "ValidatorCall u \<notin> set (trace (run lib initial es))
    \<and> ValidateTextDocument u \<notin> set (trace (run lib initial es))
    \<and> (doc_uri d = u \<longrightarrow>
         step lib initial (DidChangeContent d) =
           initial\<lparr> validationRequestStream := Some d, validationByDoc := [u \<mapsto> 0],
                    nextSubscription := 1, trace := [Log ''Ignoring:'' u] \<rparr>)"
proof -
  have b: "blackListed lib u" using assms by (simp add: blacklisted_iff)
  have e: "extends (\<lambda>a. a \<noteq> ValidateTextDocument u \<and> a \<noteq> ValidatorCall u) initial (run lib initial es)"
    using blacklisted_run [OF blacklistSafe_initial b] by simp
  have t: "trace initial = []" by (simp add: initial_def)
  have 1: "ValidatorCall u \<notin> set (trace (run lib initial es))"
    by (rule extends_notin [OF e]) (simp_all add: t)
  have 2: "ValidateTextDocument u \<notin> set (trace (run lib initial es))"
    by (rule extends_notin [OF e]) (simp_all add: t)
  show ?thesis using 1 2 b first_blacklisted_event [of lib d] by auto
qed

theorem C5_witness:
  "ValidatorCall ''git:/a.txt'' \<notin> set (trace (run (exampleLibraries RxJS6) initial gitEvents))
   \<and> trace (run (exampleLibraries RxJS6) initial gitEvents) = [Log ''Ignoring:'' ''git:/a.txt'', Log ''onDidSave'' ''git:/a.txt'']
   \<and> pipelines (run (exampleLibraries RxJS6) initial gitEvents) = []"
proof -
  have s: "uriScheme (exampleLibraries RxJS6) ''git:/a.txt'' = Inr ''git''"
    "''git'' \<in> set schemeBlackList" by code_simp+
  have t: "trace (run (exampleLibraries RxJS6) initial gitEvents) = [Log ''Ignoring:'' ''git:/a.txt'', Log ''onDidSave'' ''git:/a.txt'']"
    "pipelines (run (exampleLibraries RxJS6) initial gitEvents) = []"
    by code_simp+
  show ?thesis
    using C5_blacklisted_never_validated [OF s, of gitEvents docGit] t by simp
qed

section \<open>The save blackout\<close>

text \<open>
  C3, as the code has it.  While a URI is in \<^verbatim>\<open>blockValidation\<close>, and until the did-save
  of its document, no call of the server's \<^verbatim>\<open>validateTextDocument\<close> is made for it,
  whatever events arrive: the filter after the debounce drops the request.  A will-save
  enters the URI with the document's version; a did-save removes it and at once puts the
  saved document on the request stream, where the document's open pipeline takes it.
  Nothing is said of a validation that was running when the will-save arrived.
\<close>

theorem C3_no_new_validation_during_save:
  assumes "blockValidation s u \<noteq> None" and "list_all (\<lambda>e. \<not> isDidSaveOf u e) es"
  shows "blockValidation (run lib s es) u \<noteq> None
    \<and> count_list (trace (run lib s es)) (ValidateTextDocument u) = count_list (trace s) (ValidateTextDocument u)
    \<and> (\<not> disposed s' \<longrightarrow> blockValidation (step lib s' (WillSave d)) (doc_uri d) = Some (doc_version d))
    \<and> (\<not> disposed s' \<longrightarrow>
         blockValidation (step lib s' (DidSave d)) (doc_uri d) = None
         \<and> validationRequestStream (step lib s' (DidSave d)) = Some d
         \<and> (\<forall>p \<in> set (pipelines s'). p_uri p = doc_uri d \<and> \<not> p_ignore p \<longrightarrow>
               p\<lparr> p_fetching := p_fetching p @ [d] \<rparr> \<in> set (pipelines (step lib s' (DidSave d)))))"
  using run_blocked [OF assms, of lib] onDidSave_existing [of _ s' d lib]
  by auto

theorem C3_witness:
  "blockValidation (run (exampleLibraries RxJS6) initial (beforeSave @ [WillSave docA] @ duringSave)) ''file:///a.txt'' \<noteq> None
   \<and> count_list (trace (run (exampleLibraries RxJS6) initial (beforeSave @ [WillSave docA] @ duringSave)))
        (ValidateTextDocument ''file:///a.txt'') = 1
   \<and> blockValidation (run (exampleLibraries RxJS6) initial (beforeSave @ [WillSave docA] @ duringSave @ [DidSave docA]))
        ''file:///a.txt'' = None
   \<and> map p_fetching (pipelines (run (exampleLibraries RxJS6) initial (beforeSave @ [WillSave docA] @ duringSave @ [DidSave docA])))
        = [ [docA] ]"
proof -
  let ?s = "run (exampleLibraries RxJS6) initial (beforeSave @ [WillSave docA])"
  have h1: "blockValidation ?s ''file:///a.txt'' \<noteq> None" by code_simp
  have h2: "list_all (\<lambda>e. \<not> isDidSaveOf ''file:///a.txt'' e) duringSave" by code_simp
  have c: "count_list (trace ?s) (ValidateTextDocument ''file:///a.txt'') = 1" by code_simp
  have d: "\<not> disposed (run (exampleLibraries RxJS6) ?s duringSave)" "doc_uri docA = ''file:///a.txt''" by code_simp+
  have f: "map p_fetching (pipelines (run (exampleLibraries RxJS6) initial (beforeSave @ [WillSave docA] @ duringSave @ [DidSave docA])))
        = [ [docA] ]" by code_simp
  note t = C3_no_new_validation_during_save [OF h1 h2, of "exampleLibraries RxJS6" "run (exampleLibraries RxJS6) ?s duringSave" docA]
  have a: "run (exampleLibraries RxJS6) initial (beforeSave @ [WillSave docA] @ duringSave) = run (exampleLibraries RxJS6) ?s duringSave"
    "run (exampleLibraries RxJS6) initial (beforeSave @ [WillSave docA] @ duringSave @ [DidSave docA])
       = step (exampleLibraries RxJS6) (run (exampleLibraries RxJS6) ?s duringSave) (DidSave docA)"
    by (simp_all add: run_def)
  show ?thesis
    unfolding a using t c d f [unfolded a] by simp
qed

text \<open>
  C3 as stated fails: the block is looked at once, before \<^verbatim>\<open>validateTextDocument\<close> is
  called.  Here the validation of the document has started and waits for
  \<^verbatim>\<open>isUriExcluded\<close> when the will-save arrives; its waits settle during the save, and the
  analyzer is called for the document while its URI is in \<^verbatim>\<open>blockValidation\<close> and no
  did-save has been seen.
\<close>

theorem C3_counterexample:
  "blockValidation (run (exampleLibraries RxJS6) initial (beforeSave @ [WillSave docA])) ''file:///a.txt'' = Some 1
   \<and> list_all (\<lambda>e. \<not> isDidSaveOf ''file:///a.txt'' e) duringSave
   \<and> count_list (trace (run (exampleLibraries RxJS6) initial (beforeSave @ [WillSave docA]))) (ValidatorCall ''file:///a.txt'') = 0
   \<and> count_list (trace (run (exampleLibraries RxJS6) initial (beforeSave @ [WillSave docA] @ duringSave))) (ValidatorCall ''file:///a.txt'') = 1
   \<and> count_list (trace (run (exampleLibraries RxJS6) initial (beforeSave @ [WillSave docA] @ duringSave))) (ValidateTextDocument ''file:///a.txt'') = 1"
  by code_simp

section \<open>The busy gate\<close>

lemma RxJS7_serializes:
  assumes "rxjs lib = RxJS7"
  shows "length (inFlight (run lib initial es)) \<le> 1
    \<and> (validating (run lib initial es) \<noteq> [] \<longrightarrow> isValidationBusy (run lib initial es))"
proof -
  have g: "gate (run lib initial es)" using gate_initial assms by (rule gate_run)
  have "length (inFlight (run lib initial es)) \<le> length (validating (run lib initial es))"
    by (simp add: inFlight_def)
  then show ?thesis using g by (simp add: gate_def)
qed

text \<open>
  C1 fails on the code.  The gate is the \<^verbatim>\<open>filter\<close> on the timer inside \<^verbatim>\<open>debounce\<close>.  With
  the \<^verbatim>\<open>debounce\<close> of RxJS 6, which the package asks for, the completion of the timer
  releases the value that the filter held back, so the flag stops nothing: in the run
  below the analyzer call for the second document starts while the call for the first has
  not returned.  With the \<^verbatim>\<open>debounce\<close> of RxJS 7 the same events leave one call in flight,
  and \<open>RxJS7_serializes\<close> shows that the gate would then serialize the calls in every run.
\<close>

theorem C1_calls_overlap:
  "inFlight (run (exampleLibraries RxJS6) initial overlapEvents) = [''file:///a.txt'', ''file:///b.txt'']
   \<and> filter (\<lambda>a. a \<noteq> Log ''Request Validate'' ''file:///a.txt'' \<and> a \<noteq> Log ''Request Validate'' ''file:///b.txt'')
         (trace (run (exampleLibraries RxJS6) initial overlapEvents)) =
       [Log ''blocked? false'' ''file:///a.txt'', ValidateTextDocument ''file:///a.txt'',
        Log ''Validate File'' ''file:///a.txt'', Log ''validateTextDocument start'' ''file:///a.txt'',
        ValidatorCall ''file:///a.txt'',
        Log ''blocked? false'' ''file:///b.txt'', ValidateTextDocument ''file:///b.txt'',
        Log ''Validate File'' ''file:///b.txt'', Log ''validateTextDocument start'' ''file:///b.txt'',
        ValidatorCall ''file:///b.txt'']
   \<and> inFlight (run (exampleLibraries RxJS7) initial overlapEvents) = [''file:///a.txt'']"
  by code_simp

end
